theory Spec2Isabelle
  imports Main "HOL-Library.Sublist"
begin

section \<open>JavaScript strings\<close>

text \<open>
  A string is the list of the bytes of its UTF-8 encoding, which is what the route writes to the
  response (\<^verbatim>\<open>encoder.encode\<close>) and what the page reads back. All markers the program looks for
  are ASCII, so a search for them gives the same answer on bytes as on UTF-16 code units. The
  strings of the program are taken to be well-formed (no lone surrogates).
\<close>

text \<open>\<^verbatim>\<open>s.startsWith(m)\<close> is \<^term>\<open>prefix m s\<close>; \<^verbatim>\<open>s.includes(m)\<close>:\<close>

fun str_includes :: "string \<Rightarrow> string \<Rightarrow> bool" where
  "str_includes [] m = (m = [])"
| "str_includes (c # cs) m = (prefix m (c # cs) \<or> str_includes cs m)"

text \<open>
  \<^verbatim>\<open>s.split(sep)\<close> as ECMAScript defines it: scan from the left; at a match, close the piece read
  so far and continue behind the separator; the rest of the string is the last piece. An empty
  separator splits into single characters.
\<close>

function split_from :: "string \<Rightarrow> string \<Rightarrow> string \<Rightarrow> string list" where
  "split_from acc [] sep = [rev acc]"
| "split_from acc (c # cs) sep =
     (if sep \<noteq> [] \<and> prefix sep (c # cs)
      then rev acc # split_from [] (drop (length sep) (c # cs)) sep
      else split_from (c # acc) cs sep)"
  by pat_completeness auto
termination
  by (relation "measure (\<lambda>(acc, s, sep). length s)") auto

declare split_from.simps [simp del]

definition split :: "string \<Rightarrow> string \<Rightarrow> string list" where
  "split s sep = (if sep = [] then map (\<lambda>c. [c]) s else split_from [] s sep)"

text \<open>\<^verbatim>\<open>xs[i]\<close> on an array: \<^verbatim>\<open>undefined\<close> out of range.\<close>

fun index :: "'a list \<Rightarrow> nat \<Rightarrow> 'a option" where
  "index [] i = None"
| "index (x # xs) 0 = Some x"
| "index (x # xs) (Suc i) = index xs i"

text \<open>
  \<^verbatim>\<open>s.trim()\<close> removes the white space and the line terminators of ECMAScript at both ends:
  U+0009 to U+000D, U+0020, U+00A0, U+1680, U+2000 to U+200A, U+2028, U+2029, U+202F, U+205F,
  U+3000 and U+FEFF. On the bytes of a string these are the encodings below; no encoding is the
  beginning or the end of another character's encoding, so that removing them from the bytes
  removes the characters from the string.
\<close>

definition white_space :: "string list" where
  "white_space =
     [[CHR 0x09], [CHR 0x0A], [CHR 0x0B], [CHR 0x0C], [CHR 0x0D], [CHR 0x20],
      [CHR 0xC2, CHR 0xA0],
      [CHR 0xE1, CHR 0x9A, CHR 0x80],
      [CHR 0xE2, CHR 0x80, CHR 0x80], [CHR 0xE2, CHR 0x80, CHR 0x81],
      [CHR 0xE2, CHR 0x80, CHR 0x82], [CHR 0xE2, CHR 0x80, CHR 0x83],
      [CHR 0xE2, CHR 0x80, CHR 0x84], [CHR 0xE2, CHR 0x80, CHR 0x85],
      [CHR 0xE2, CHR 0x80, CHR 0x86], [CHR 0xE2, CHR 0x80, CHR 0x87],
      [CHR 0xE2, CHR 0x80, CHR 0x88], [CHR 0xE2, CHR 0x80, CHR 0x89],
      [CHR 0xE2, CHR 0x80, CHR 0x8A],
      [CHR 0xE2, CHR 0x80, CHR 0xA8], [CHR 0xE2, CHR 0x80, CHR 0xA9],
      [CHR 0xE2, CHR 0x80, CHR 0xAF],
      [CHR 0xE2, CHR 0x81, CHR 0x9F],
      [CHR 0xE3, CHR 0x80, CHR 0x80],
      [CHR 0xEF, CHR 0xBB, CHR 0xBF]]"

text \<open>The white space a string begins with or ends with, if any.\<close>

definition leading_space :: "string \<Rightarrow> string option" where
  "leading_space s = find (\<lambda>ws. prefix ws s) white_space"

definition trailing_space :: "string \<Rightarrow> string option" where
  "trailing_space s = find (\<lambda>ws. suffix ws s) white_space"

function trimStart :: "string \<Rightarrow> string" where
  "trimStart s =
     (case leading_space s of None \<Rightarrow> s | Some ws \<Rightarrow> trimStart (drop (length ws) s))"
  by pat_completeness auto
termination
proof (relation "measure length")
  fix s ws
  assume "leading_space s = Some ws"
  then have "ws \<in> set white_space" "prefix ws s"
    by (auto simp: leading_space_def find_Some_iff)
  then have "ws \<noteq> []" "s \<noteq> []"
    by (auto simp: white_space_def)
  then show "(drop (length ws) s, s) \<in> measure length" by simp
qed simp

function trimEnd :: "string \<Rightarrow> string" where
  "trimEnd s =
     (case trailing_space s of None \<Rightarrow> s
      | Some ws \<Rightarrow> trimEnd (take (length s - length ws) s))"
  by pat_completeness auto
termination
proof (relation "measure length")
  fix s ws
  assume "trailing_space s = Some ws"
  then have "ws \<in> set white_space" "suffix ws s"
    by (auto simp: trailing_space_def find_Some_iff)
  then have "ws \<noteq> []" "s \<noteq> []"
    by (auto simp: white_space_def)
  then show "(take (length s - length ws) s, s) \<in> measure length" by simp
qed simp

declare trimStart.simps [simp del]
declare trimEnd.simps [simp del]

definition trim :: "string \<Rightarrow> string" where
  "trim s = trimEnd (trimStart s)"

text \<open>\<^verbatim>\<open>xs.join(sep)\<close>.\<close>

fun join :: "string \<Rightarrow> string list \<Rightarrow> string" where
  "join sep [] = []"
| "join sep [x] = x"
| "join sep (x # y # ys) = x @ sep @ join sep (y # ys)"

text \<open>A number inside a template literal: its decimal digits.\<close>

definition digit :: "nat \<Rightarrow> char" where
  "digit d = char_of (of_char (CHR ''0'') + d)"

function toString :: "nat \<Rightarrow> string" where
  "toString n = (if n < 10 then [digit n] else toString (n div 10) @ [digit (n mod 10)])"
  by pat_completeness auto
termination
  by (relation "measure id") auto

declare toString.simps [simp del]

text \<open>
  The two markers of the protocol, and the text a reader would expect behind a marker: everything
  that follows its first occurrence (\<open>None\<close> when the marker does not occur), and the text in front
  of its first occurrence (the whole string when it does not occur).
\<close>

definition SUMMARY_FOR :: string where
  "SUMMARY_FOR = ''Summary for''"

definition UNIFIED_ANALYSIS :: string where
  "UNIFIED_ANALYSIS = ''Unified Analysis:''"

fun after_first :: "string \<Rightarrow> string \<Rightarrow> string option" where
  "after_first [] m = (if m = [] then Some [] else None)"
| "after_first (c # cs) m =
     (if prefix m (c # cs) then Some (drop (length m) (c # cs)) else after_first cs m)"

fun before_first :: "string \<Rightarrow> string \<Rightarrow> string" where
  "before_first [] m = []"
| "before_first (c # cs) m = (if prefix m (c # cs) then [] else c # before_first cs m)"

section \<open>The route: \<^verbatim>\<open>app/api/process-pdfs/route.ts\<close>\<close>

subsection \<open>The world outside the route\<close>

datatype error = Error (message: string)

record File =
  file_name :: string
  file_bytes :: string

text \<open>
  Every awaited call into the file system, the PDF loader, the text splitter and the LLM is a
  capability of the environment that either returns or rejects. Each takes the number of external
  calls made so far, so that the same call may succeed once and fail later.
\<close>

record env =
  fs_mkdtemp :: "nat \<Rightarrow> error + string"
  fs_writeFile :: "nat \<Rightarrow> string \<Rightarrow> string \<Rightarrow> string \<Rightarrow> error + unit"
  loader_load :: "nat \<Rightarrow> string option \<Rightarrow> error + string list"
  splitDocuments :: "nat \<Rightarrow> string list \<Rightarrow> error + string list"
  summarizationChain_call :: "nat \<Rightarrow> string \<Rightarrow> error + string"
  fs_rm :: "nat \<Rightarrow> string \<Rightarrow> error + unit"
  unifiedAnalysisChain_call :: "nat \<Rightarrow> string \<Rightarrow> error + string"

text \<open>The external calls, in the order they were made, each with what it returned.\<close>

datatype event =
    Mkdtemp "error + string"
  | WriteFile string string "error + unit"
  | Load string "error + string list"
  | Split "error + string list"
  | Summarize nat string "error + string"
  | Rm string "error + unit"
  | Synthesize string "error + string"

text \<open>
  The disk holds the staging directories (a directory maps the names of its files to their
  bytes); the trace is the history of external calls.
\<close>

record world =
  disk :: "string \<rightharpoonup> (string \<rightharpoonup> string)"
  trace :: "event list"

definition clock :: "world \<Rightarrow> nat" where
  "clock w = length (trace w)"

definition record_call :: "event \<Rightarrow> world \<Rightarrow> world" where
  "record_call e w = w\<lparr>trace := trace w @ [e]\<rparr>"

text \<open>
  What a step of the program added to the trace, the chunk indices it passed to the summarizer and
  the texts the summarizer returned, both in the order of the calls.
\<close>

definition new_events :: "world \<Rightarrow> world \<Rightarrow> event list" where
  "new_events w w' = drop (length (trace w)) (trace w')"

fun summarized_indices :: "event list \<Rightarrow> nat list" where
  "summarized_indices [] = []"
| "summarized_indices (Summarize i c r # es) = i # summarized_indices es"
| "summarized_indices (e # es) = summarized_indices es"

fun returned_texts :: "event list \<Rightarrow> string list" where
  "returned_texts [] = []"
| "returned_texts (Summarize i c (Inr t) # es) = t # returned_texts es"
| "returned_texts (e # es) = returned_texts es"

text \<open>The errors the external calls of a trace ended with, in order.\<close>

definition failure :: "error + 'a \<Rightarrow> error option" where
  "failure r = (case r of Inl e \<Rightarrow> Some e | Inr v \<Rightarrow> None)"

fun fault_of :: "event \<Rightarrow> error option" where
  "fault_of (Mkdtemp r) = failure r"
| "fault_of (WriteFile d n r) = failure r"
| "fault_of (Load d r) = failure r"
| "fault_of (Split r) = failure r"
| "fault_of (Summarize i c r) = failure r"
| "fault_of (Rm d r) = failure r"
| "fault_of (Synthesize p r) = failure r"

fun faults :: "event list \<Rightarrow> error list" where
  "faults [] = []"
| "faults (ev # es) = (case fault_of ev of None \<Rightarrow> faults es | Some e \<Rightarrow> e # faults es)"

subsection \<open>The fragments\<close>

definition brain :: string where
  "brain = [CHR 0xF0, CHR 0x9F, CHR 0xA7, CHR 0xA0]"

definition test_tube :: string where
  "test_tube = [CHR 0xF0, CHR 0x9F, CHR 0xA7, CHR 0xAA]"

definition processing_fragment :: "string \<Rightarrow> string" where
  "processing_fragment nm = ''Processing '' @ nm @ ''...\<newline>''"

definition analyzing_fragment :: "nat \<Rightarrow> nat \<Rightarrow> string \<Rightarrow> string" where
  "analyzing_fragment i n nm =
     brain @ '' Analyzing section '' @ toString i @ '' of '' @ toString n @ '' for '' @ nm
       @ ''\<newline>''"

definition summary_fragment :: "string \<Rightarrow> string \<Rightarrow> string" where
  "summary_fragment nm s = ''Summary for '' @ nm @ '':\<newline>'' @ s @ ''\<newline>\<newline>''"

definition synthesizing_fragment :: string where
  "synthesizing_fragment = test_tube @ '' Synthesizing findings...\<newline>''"

definition unified_fragment :: "string \<Rightarrow> string" where
  "unified_fragment t = ''Unified Analysis:\<newline>'' @ t @ ''\<newline>''"

definition error_fragment :: "error \<Rightarrow> string" where
  "error_fragment e = ''Error: '' @ message e @ ''\<newline>''"

text \<open>The kind of a fragment is read off its first characters, as the route itself does.\<close>

definition is_summary :: "string \<Rightarrow> bool" where
  "is_summary c = prefix ''Summary for'' c"

definition is_analyzing :: "string \<Rightarrow> bool" where
  "is_analyzing c = prefix (brain @ '' Analyzing section '') c"

definition is_unified :: "string \<Rightarrow> bool" where
  "is_unified c = prefix ''Unified Analysis:'' c"

definition is_error :: "string \<Rightarrow> bool" where
  "is_error c = prefix ''Error: '' c"

subsection \<open>\<^verbatim>\<open>processFile\<close>\<close>

text \<open>
  An async generator is modelled by what it yields, in order, how it ends (the value it returns or
  the error it throws) and the world it leaves. The consumer of the route only writes each yielded
  fragment to the response and keeps some of them, so it does not interfere with the generator.
\<close>

type_synonym 'a run = "string list \<times> (error + 'a) \<times> world"

text \<open>The loop over the leading chunks, lines 62 to 67; \<open>i\<close> and \<open>fullSummary\<close> are its variables.\<close>

function summarize_loop :: "env \<Rightarrow> File \<Rightarrow> string list \<Rightarrow> nat \<Rightarrow> string \<Rightarrow> world \<Rightarrow> string run" where
  "summarize_loop E f chunks i fullSummary w =
     (if i < min (length chunks) 5 then
        (case summarizationChain_call E (clock w) (chunks ! i) of
           Inl e \<Rightarrow> ([], Inl e, record_call (Summarize i (chunks ! i) (Inl e)) w)
         | Inr text \<Rightarrow>
             (case summarize_loop E f chunks (i + 1) (fullSummary @ text @ '' '')
                     (record_call (Summarize i (chunks ! i) (Inr text)) w) of
                (ys, r, w') \<Rightarrow>
                  (analyzing_fragment (i + 1) (min (length chunks) 5) (file_name f) # ys, r, w')))
      else ([], Inr fullSummary, w))"
  by pat_completeness auto
termination
  by (relation "measure (\<lambda>(E, f, chunks, i, fullSummary, w). min (length chunks) 5 - i)") auto

declare summarize_loop.simps [simp del]

text \<open>The body of the \<^verbatim>\<open>try\<close> block, lines 51 to 72.\<close>

definition try_block :: "env \<Rightarrow> File \<Rightarrow> string \<Rightarrow> world \<Rightarrow> string run" where
  "try_block E f tempDir w =
     (let staged = (case disk w tempDir of None \<Rightarrow> None | Some d \<Rightarrow> d (file_name f));
          loaded = loader_load E (clock w) staged;
          w1 = record_call (Load tempDir loaded) w
      in case loaded of
           Inl e \<Rightarrow> ([], Inl e, w1)
         | Inr docs \<Rightarrow>
             (let chunked = splitDocuments E (clock w1) docs;
                  w2 = record_call (Split chunked) w1
              in case chunked of
                   Inl e \<Rightarrow> ([], Inl e, w2)
                 | Inr chunks \<Rightarrow>
                     (case summarize_loop E f chunks 0 [] w2 of
                        (ys, Inl e, w3) \<Rightarrow> (ys, Inl e, w3)
                      | (ys, Inr fullSummary, w3) \<Rightarrow>
                          (ys @ [summary_fragment (file_name f) (trim fullSummary)],
                           Inr (trim fullSummary), w3))))"

text \<open>
  The generator. The bytes of an uploaded \<^verbatim>\<open>File\<close> are in memory (\<^verbatim>\<open>arrayBuffer\<close> does not
  reject), and \<open>file_name\<close> is a plain name, so that the staged file lies inside the directory.
  The directory is made and the file written before the \<^verbatim>\<open>try\<close> is entered; the \<^verbatim>\<open>finally\<close> runs
  however the block ends, and an error it throws replaces the outcome of the block.
\<close>

definition processFile :: "env \<Rightarrow> File \<Rightarrow> world \<Rightarrow> string run" where
  "processFile E f w =
     (let made = fs_mkdtemp E (clock w);
          w1 = record_call (Mkdtemp made) w
      in case made of
           Inl e \<Rightarrow> ([], Inl e, w1)
         | Inr tempDir \<Rightarrow>
             (let w2 = w1\<lparr>disk := (disk w1)(tempDir \<mapsto> Map.empty)\<rparr>;
                  written = fs_writeFile E (clock w2) tempDir (file_name f) (file_bytes f);
                  w3 = record_call (WriteFile tempDir (file_name f) written) w2
              in case written of
                   Inl e \<Rightarrow> ([], Inl e, w3)
                 | Inr u \<Rightarrow>
                     (let w4 = w3\<lparr>disk := (disk w3)(tempDir \<mapsto> [file_name f \<mapsto> file_bytes f])\<rparr>
                      in case try_block E f tempDir w4 of
                           (ys, r, w5) \<Rightarrow>
                             (let removed = fs_rm E (clock w5) tempDir;
                                  w6 = record_call (Rm tempDir removed) w5
                              in case removed of
                                   Inl e \<Rightarrow> (processing_fragment (file_name f) # ys, Inl e, w6)
                                 | Inr u \<Rightarrow>
                                     (processing_fragment (file_name f) # ys, r,
                                      w6\<lparr>disk := (disk w6)(tempDir := None)\<rparr>)))))"

subsection \<open>\<^verbatim>\<open>POST\<close>\<close>

text \<open>
  The writer of the response stream: the fragments written, and how often it was closed. The
  stream is an in-memory \<^verbatim>\<open>TransformStream\<close>; writing to it and closing it are taken not to reject.
\<close>

record writer =
  written :: "string list"
  closes :: nat

definition writer_write :: "string \<Rightarrow> writer \<Rightarrow> writer" where
  "writer_write c wr = wr\<lparr>written := written wr @ [c]\<rparr>"

definition writer_close :: "writer \<Rightarrow> writer" where
  "writer_close wr = wr\<lparr>closes := closes wr + 1\<rparr>"

text \<open>
  The loop over the files, lines 95 to 103: every yielded fragment is written, those that start
  with the marker are kept in \<open>summaries\<close>, and the first error leaves the loop.
\<close>

fun process_files ::
  "env \<Rightarrow> File list \<Rightarrow> string list \<Rightarrow> writer \<Rightarrow> world \<Rightarrow> (error + string list) \<times> writer \<times> world" where
  "process_files E [] summaries wr w = (Inr summaries, wr, w)"
| "process_files E (f # fs) summaries wr w =
     (case processFile E f w of
        (ys, r, w') \<Rightarrow>
          (let wr' = foldl (\<lambda>a c. writer_write c a) wr ys;
               summaries' = summaries @ filter (\<lambda>c. prefix ''Summary for'' c) ys
           in case r of
                Inl e \<Rightarrow> (Inl e, wr', w')
              | Inr s \<Rightarrow> process_files E fs summaries' wr' w'))"

text \<open>The \<^verbatim>\<open>try\<close> block of the worker, lines 95 to 110.\<close>

definition worker_try :: "env \<Rightarrow> File list \<Rightarrow> writer \<Rightarrow> world \<Rightarrow> (error + unit) \<times> writer \<times> world" where
  "worker_try E files wr w =
     (case process_files E files [] wr w of
        (Inl e, wr1, w1) \<Rightarrow> (Inl e, wr1, w1)
      | (Inr summaries, wr1, w1) \<Rightarrow>
          (let wr2 = writer_write synthesizing_fragment wr1;
               prompt = join ''\<newline>'' summaries;
               answer = unifiedAnalysisChain_call E (clock w1) prompt;
               w2 = record_call (Synthesize prompt answer) w1
           in case answer of
                Inl e \<Rightarrow> (Inl e, wr2, w2)
              | Inr text \<Rightarrow> (Inr (), writer_write (unified_fragment text) wr2, w2)))"

text \<open>The worker, lines 93 to 116: \<^verbatim>\<open>try\<close>, \<^verbatim>\<open>catch\<close>, \<^verbatim>\<open>finally\<close>.\<close>

definition worker :: "env \<Rightarrow> File list \<Rightarrow> writer \<Rightarrow> world \<Rightarrow> (error + unit) \<times> writer \<times> world" where
  "worker E files wr w =
     (case worker_try E files wr w of
        (r, wr1, w1) \<Rightarrow>
          (let wr2 = (case r of Inl e \<Rightarrow> writer_write (error_fragment e) wr1 | Inr u \<Rightarrow> wr1)
           in (r, writer_close wr2, w1)))"

text \<open>
  A response is a status and a body: a text, or the readable end of a stream, given here by the
  state its writer reaches when the worker has run. The form data is the list of its entries.
\<close>

datatype body = Text string | Stream writer

record response =
  status :: nat
  content_type :: "string option"
  body :: body

definition getAll :: "string \<Rightarrow> (string \<times> File) list \<Rightarrow> File list" where
  "getAll field data = map snd (filter (\<lambda>entry. fst entry = field) data)"

definition POST :: "env \<Rightarrow> (string \<times> File) list \<Rightarrow> world \<Rightarrow> response \<times> world" where
  "POST E data w =
     (let files = getAll ''files'' data
      in if length files = 0
         then (\<lparr>status = 400, content_type = None, body = Text ''No files uploaded''\<rparr>, w)
         else (case worker E files \<lparr>written = [], closes = 0\<rparr> w of
                 (r, wr, w') \<Rightarrow>
                   (\<lparr>status = 200, content_type = Some ''text/plain; charset=utf-8'',
                     body = Stream wr\<rparr>, w')))"

text \<open>The fragments of a streamed response, in the order they were written.\<close>

definition fragments :: "response \<Rightarrow> string list" where
  "fragments resp = (case body resp of Text t \<Rightarrow> [] | Stream wr \<Rightarrow> written wr)"

text \<open>A fragment that contains a marker somewhere, which is how the page looks for it.\<close>

definition mentions :: "string \<Rightarrow> string \<Rightarrow> bool" where
  "mentions m c = str_includes c m"

section \<open>The page: \<^verbatim>\<open>app/page.tsx\<close>\<close>

record AnalysisResult =
  summaries :: "string list"
  unifiedAnalysis :: string

text \<open>
  The state of the component (\<open>results\<close>, \<open>isLoading\<close>, \<open>error\<close>, \<open>scientificProcess\<close>) and the
  local variables of \<^verbatim>\<open>generateAnalysis\<close> (\<open>accumulatedText\<close>, \<open>currentSummary\<close> and the array
  \<open>summaries\<close>, here \<open>summaries_array\<close>).
\<close>

record page =
  results :: "AnalysisResult option"
  isLoading :: bool
  error :: "string option"
  scientificProcess :: string
  accumulatedText :: string
  currentSummary :: string
  summaries_array :: "string list"

text \<open>
  \<^verbatim>\<open>summaries.push(s)\<close>. The object given to \<^verbatim>\<open>setResults\<close> holds the array itself, not a copy, so
  a later push is seen through \<open>results\<close> as well.
\<close>

definition push :: "string \<Rightarrow> page \<Rightarrow> page" where
  "push s p =
     p\<lparr>summaries_array := summaries_array p @ [s],
       results := map_option (\<lambda>r. r\<lparr>summaries := summaries r @ [s]\<rparr>) (results p)\<rparr>"

text \<open>
  Lines 77 to 85. \<^verbatim>\<open>chunk.split('Summary for')[1]\<close> would be \<^verbatim>\<open>undefined\<close> if the split had one
  piece; every use of \<open>currentSummary\<close> is behind a test of its truthiness, where \<^verbatim>\<open>undefined\<close>
  behaves as the empty string does.
\<close>

definition summary_step :: "string \<Rightarrow> page \<Rightarrow> page" where
  "summary_step chunk p =
     (if str_includes chunk SUMMARY_FOR then
        (let p' = (if currentSummary p \<noteq> []
                   then (push (trim (currentSummary p)) p)\<lparr>currentSummary := []\<rparr>
                   else p)
         in p'\<lparr>currentSummary :=
                 (case index (split chunk SUMMARY_FOR) 1 of None \<Rightarrow> [] | Some t \<Rightarrow> t)\<rparr>)
      else if currentSummary p \<noteq> [] then p\<lparr>currentSummary := currentSummary p @ chunk\<rparr>
      else p)"

text \<open>
  Lines 87 to 93. \<^verbatim>\<open>undefined.trim()\<close> throws a TypeError, which leaves the loop with the state
  reached so far.
\<close>

definition unified_step :: "string \<Rightarrow> page \<Rightarrow> error option \<times> page" where
  "unified_step chunk p =
     (if str_includes chunk UNIFIED_ANALYSIS then
        (let p' = (if currentSummary p \<noteq> [] then push (trim (currentSummary p)) p else p)
         in case index (split (accumulatedText p') UNIFIED_ANALYSIS) 1 of
              None \<Rightarrow>
                (Some (Error (''Cannot read properties of undefined (reading '' @ [CHR 0x27]
                   @ ''trim'' @ [CHR 0x27] @ '')'')), p')
            | Some t \<Rightarrow>
                (None, p'\<lparr>results :=
                         Some \<lparr>summaries = summaries_array p', unifiedAnalysis = trim t\<rparr>\<rparr>))
      else (None, p))"

text \<open>
  One turn of the loop for a chunk that was read, lines 73 to 93. A chunk is decoded on its own;
  chunks are taken to be well-formed UTF-8 that ends between characters and does not begin with
  a byte order mark, so that decoding does not change the bytes.
\<close>

definition on_chunk :: "string \<Rightarrow> page \<Rightarrow> error option \<times> page" where
  "on_chunk chunk p =
     unified_step chunk
       (summary_step chunk
          (p\<lparr>accumulatedText := accumulatedText p @ chunk,
             scientificProcess := scientificProcess p @ chunk\<rparr>))"

text \<open>
  The body of a response arrives as a list of chunks and then ends: the reader reports
  \<^verbatim>\<open>done\<close>, or a read rejects. The loop returns the error thrown, if any, and the state.
\<close>

datatype ending = Done | Rejected error

fun read_loop :: "string list \<Rightarrow> ending \<Rightarrow> page \<Rightarrow> error option \<times> page" where
  "read_loop [] Done p = (None, p)"
| "read_loop [] (Rejected e) p = (Some e, p)"
| "read_loop (chunk # rest) fin p =
     (case on_chunk chunk p of
        (Some e, p') \<Rightarrow> (Some e, p')
      | (None, p') \<Rightarrow> read_loop rest fin p')"

text \<open>What \<^verbatim>\<open>fetch\<close> gives: it rejects, or a response with status, status text and body.\<close>

datatype fetched = FetchRejected error | Responded nat string "string list" ending

text \<open>\<^verbatim>\<open>generateAnalysis\<close> with \<open>n\<close> files selected, lines 41 to 108.\<close>

definition generateAnalysis :: "nat \<Rightarrow> fetched \<Rightarrow> page \<Rightarrow> page" where
  "generateAnalysis n fetched p0 =
     (let p1 = p0\<lparr>isLoading := True, error := None, results := None,
                 scientificProcess := ''Initiating analysis of '' @ toString n @ '' files...'',
                 accumulatedText := [], currentSummary := [], summaries_array := []\<rparr>;
          tried =
            (case fetched of
               FetchRejected e \<Rightarrow> (Some e, p1)
             | Responded st statusText chunks fin \<Rightarrow>
                 if \<not> (200 \<le> st \<and> st \<le> 299)
                 then (Some (Error (''Server responded with '' @ toString st @ '': '' @ statusText)),
                       p1)
                 else (case read_loop chunks fin p1 of
                         (Some e, p) \<Rightarrow> (Some e, p)
                       | (None, p) \<Rightarrow>
                           (None, p\<lparr>scientificProcess := scientificProcess p
                                      @ ''\<newline>Analysis completed successfully.''\<rparr>)));
          p3 = (case tried of
                  (None, p2) \<Rightarrow> p2
                | (Some e, p2) \<Rightarrow>
                    p2\<lparr>error := Some (''An error occurred: '' @ message e),
                       scientificProcess := scientificProcess p2 @ ''\<newline>Error occurred: ''
                         @ message e\<rparr>)
      in p3\<lparr>isLoading := False\<rparr>)"

text \<open>
  What the component shows, lines 148 to 198: the alert when \<open>error\<close> is truthy, the progress log
  when \<open>scientificProcess\<close> is, the results card when \<open>results\<close> is not null.
\<close>

record view =
  alert :: "string option"
  progress_log :: "string option"
  results_card :: "AnalysisResult option"

definition render :: "page \<Rightarrow> view" where
  "render p =
     \<lparr>alert = (case error p of None \<Rightarrow> None | Some m \<Rightarrow> if m = [] then None else Some m),
      progress_log = (if scientificProcess p = [] then None else Some (scientificProcess p)),
      results_card = results p\<rparr>"

section \<open>Sample inputs\<close>

definition ok_env :: env where
  "ok_env =
     \<lparr>fs_mkdtemp = (\<lambda>t. Inr (''/tmp/pdf-upload-'' @ toString t)),
      fs_writeFile = (\<lambda>t d n b. Inr ()),
      loader_load = (\<lambda>t s. case s of None \<Rightarrow> Inl (Error ''ENOENT'') | Some b \<Rightarrow> Inr [b]),
      splitDocuments = (\<lambda>t docs. Inr docs),
      summarizationChain_call = (\<lambda>t c. Inr (''sum('' @ c @ '')'')),
      fs_rm = (\<lambda>t d. Inr ()),
      unifiedAnalysisChain_call = (\<lambda>t p. Inr ''theme'')\<rparr>"


definition disk_full_env :: env where
  "disk_full_env =
     ok_env\<lparr>fs_writeFile := \<lambda>t d n b. Inl (Error ''ENOSPC: no space left on device'')\<rparr>"

definition no_synthesis_env :: env where
  "no_synthesis_env =
     ok_env\<lparr>unifiedAnalysisChain_call := \<lambda>t p. Inl (Error ''socket hang up'')\<rparr>"


definition parse_error_env :: env where
  "parse_error_env = ok_env\<lparr>loader_load := \<lambda>t s. Inl (Error ''Invalid PDF structure'')\<rparr>"

definition empty_world :: world where
  "empty_world = \<lparr>disk = Map.empty, trace = []\<rparr>"

definition a_pdf :: File where
  "a_pdf = \<lparr>file_name = ''a.pdf'', file_bytes = ''xyz''\<rparr>"

definition b_pdf :: File where
  "b_pdf = \<lparr>file_name = ''b.pdf'', file_bytes = ''uvw''\<rparr>"

definition marker_named_pdf :: File where
  "marker_named_pdf = \<lparr>file_name = ''Summary for x.pdf'', file_bytes = ''xyz''\<rparr>"

definition one_file_request :: "(string \<times> File) list" where
  "one_file_request = [(''files'', a_pdf)]"

definition two_files_request :: "(string \<times> File) list" where
  "two_files_request = [(''files'', a_pdf), (''files'', b_pdf)]"

definition marker_named_request :: "(string \<times> File) list" where
  "marker_named_request = [(''files'', marker_named_pdf)]"

text \<open>An answer of the model that repeats the heading, as the last fragment of a stream.\<close>

definition echoed_heading_chunk :: string where
  "echoed_heading_chunk = ''Unified Analysis:\<newline>Unified Analysis:\<newline>The papers share a theme.\<newline>''"

definition both_markers_chunk :: string where
  "both_markers_chunk = ''Summary for a.pdf: short. Unified Analysis: theme''"

definition mid_stream_page :: page where
  "mid_stream_page =
     \<lparr>results = None, isLoading = True, error = None,
      scientificProcess = ''Summary for b.pdf: earlier '', accumulatedText = ''Summary for b.pdf: earlier '',
      currentSummary = '' b.pdf: earlier '', summaries_array = []\<rparr>"

text \<open>The fragments the route streams for one file when the synthesis call fails.\<close>

definition failed_stream :: "string list" where
  "failed_stream = fragments (fst (POST no_synthesis_env one_file_request empty_world))"

text \<open>
  A file whose name contains the other marker, and the fragments the route streams for it when
  the synthesis call fails.
\<close>

definition unified_named_pdf :: File where
  "unified_named_pdf = \<lparr>file_name = ''Unified Analysis: draft.pdf'', file_bytes = ''xyz''\<rparr>"

definition unified_named_request :: "(string \<times> File) list" where
  "unified_named_request = [(''files'', unified_named_pdf)]"

definition misleading_stream :: "string list" where
  "misleading_stream = fragments (fst (POST no_synthesis_env unified_named_request empty_world))"

definition blank_page :: page where
  "blank_page =
     \<lparr>results = None, isLoading = False, error = None, scientificProcess = [],
      accumulatedText = [], currentSummary = [], summaries_array = []\<rparr>"

section \<open>Strings\<close>

lemma white_space_blank:
  "ws \<in> set white_space \<Longrightarrow> ws \<noteq> [] \<and> (length ws = 1 \<or> last ws \<noteq> CHR '' '')"
  by (auto simp: white_space_def)

lemma trailing_space_blank: "trailing_space (s @ '' '') = Some '' ''"
  by (simp add: trailing_space_def white_space_def suffix_def)

lemma trimEnd_blank: "trimEnd (s @ '' '') = trimEnd s"
  by (subst trimEnd.simps) (simp add: trailing_space_blank)

lemma leading_space_Nil: "leading_space [] = None"
  by (simp add: leading_space_def white_space_def)

lemma leading_space_blank: "leading_space '' '' = Some '' ''"
  by (simp add: leading_space_def white_space_def)

lemma leading_space_append_blank:
  assumes "s \<noteq> []"
  shows "leading_space (s @ '' '') = leading_space s"
proof -
  have "prefix ws (s @ '' '') \<longleftrightarrow> prefix ws s" if "ws \<in> set white_space" for ws
  proof
    assume p: "prefix ws (s @ '' '')"
    show "prefix ws s"
    proof (rule ccontr)
      assume "\<not> prefix ws s"
      with p have "ws = s @ '' ''" by (simp add: prefix_snoc)
      then have "length ws \<noteq> 1" "last ws = CHR '' ''" using assms by simp_all
      with white_space_blank[OF that] show False by simp
    qed
  next
    assume "prefix ws s"
    then show "prefix ws (s @ '' '')" by (rule prefix_prefix)
  qed
  then show ?thesis unfolding leading_space_def by (intro find_cong) simp_all
qed

lemma trim_append_space: "trim (s @ '' '') = trim s"
  unfolding trim_def
proof (induction s rule: trimStart.induct)
  case (1 s)
  show ?case
  proof (cases "s = []")
    case True
    have "trimStart '' '' = []"
      by (subst trimStart.simps) (simp add: leading_space_blank trimStart.simps[of "[]"] leading_space_Nil)
    moreover have "trimStart [] = []"
      by (subst trimStart.simps) (simp add: leading_space_Nil)
    ultimately show ?thesis using True by simp
  next
    case False
    note ls = leading_space_append_blank[OF False]
    show ?thesis
    proof (cases "leading_space s")
      case None
      then have "trimStart (s @ '' '') = s @ '' ''" "trimStart s = s"
        using ls by (simp_all add: trimStart.simps[of s] trimStart.simps[of "s @ '' ''"])
      then show ?thesis by (simp add: trimEnd_blank)
    next
      case (Some ws)
      then have "prefix ws s" by (auto simp: leading_space_def find_Some_iff)
      then have len: "length ws \<le> length s" by (rule prefix_length_le)
      have "trimStart (s @ '' '') = trimStart (drop (length ws) s @ '' '')"
        using Some ls len by (simp add: trimStart.simps[of "s @ '' ''"])
      moreover have "trimStart s = trimStart (drop (length ws) s)"
        using Some by (simp add: trimStart.simps[of s])
      ultimately show ?thesis using "1.IH"[OF Some] by simp
    qed
  qed
qed

lemma concat_join: "xs \<noteq> [] \<Longrightarrow> concat (map (\<lambda>t. t @ '' '') xs) = join '' '' xs @ '' ''"
proof (induction xs)
  case Nil then show ?case by simp
next
  case (Cons a xs)
  then show ?case by (cases xs) auto
qed

lemma trim_concat_join: "trim (concat (map (\<lambda>t. t @ '' '') xs)) = trim (join '' '' xs)"
proof (cases "xs = []")
  case True then show ?thesis by simp
next
  case False
  from concat_join[OF this] show ?thesis using trim_append_space[of "join '' '' xs"] by simp
qed

section \<open>The per-file summarizer\<close>

lemma frag_kinds [simp]:
  "\<not> is_analyzing (processing_fragment n)" "\<not> is_analyzing (summary_fragment n s)"
  "is_analyzing (analyzing_fragment i k n)"
  "\<not> is_summary (processing_fragment n)" "is_summary (summary_fragment n s)"
  "\<not> is_summary (analyzing_fragment i k n)" "\<not> is_summary synthesizing_fragment"
  "\<not> is_summary (unified_fragment t)" "\<not> is_summary (error_fragment e)"
  "\<not> is_unified (processing_fragment n)" "\<not> is_unified (summary_fragment n s)"
  "\<not> is_unified (analyzing_fragment i k n)" "\<not> is_unified synthesizing_fragment"
  "is_unified (unified_fragment t)" "\<not> is_unified (error_fragment e)"
  "\<not> is_error (processing_fragment n)" "\<not> is_error (summary_fragment n s)"
  "\<not> is_error (analyzing_fragment i k n)" "\<not> is_error synthesizing_fragment"
  "\<not> is_error (unified_fragment t)" "is_error (error_fragment e)"
  by (simp_all add: is_analyzing_def is_summary_def is_unified_def is_error_def brain_def test_tube_def
      processing_fragment_def summary_fragment_def analyzing_fragment_def synthesizing_fragment_def
      unified_fragment_def error_fragment_def)

lemma summarize_loop_spec:
  "summarize_loop E f chunks i s w = (ys, r, w') \<Longrightarrow>
   disk w' = disk w \<and>
   (\<exists>new. trace w' = trace w @ new \<and>
      summarized_indices new = [i..<i + length new] \<and>
      length (summarized_indices new) = length new \<and>
      i + length new \<le> max i (min (length chunks) 5) \<and>
      list_all is_analyzing ys \<and>
      (case r of
         Inr full \<Rightarrow> i + length new = max i (min (length chunks) 5) \<and> length ys = length new \<and>
                     full = s @ concat (map (\<lambda>t. t @ '' '') (returned_texts new)) \<and> faults new = []
       | Inl e \<Rightarrow> Suc (length ys) = length new \<and> faults new = [e]))"
proof (induction E f chunks i s w arbitrary: ys r w' rule: summarize_loop.induct)
  case (1 E f chunks i fullSummary w)
  show ?case
  proof (cases "i < min (length chunks) 5")
    case False
    with "1.prems" show ?thesis by (auto simp: summarize_loop.simps)
  next
    case True
    show ?thesis
    proof (cases "summarizationChain_call E (clock w) (chunks ! i)")
      case (Inl e)
      with True "1.prems" have eqs: "ys = []" "r = Inl e"
        "w' = record_call (Summarize i (chunks ! i) (Inl e)) w"
        by (auto simp: summarize_loop.simps)
      let ?new = "[Summarize i (chunks ! i) (Inl e)]"
      have "trace w' = trace w @ ?new" "disk w' = disk w" using eqs by (simp_all add: record_call_def)
      moreover have "summarized_indices ?new = [i..<i + length ?new]" by simp
      moreover have "i + length ?new \<le> max i (min (length chunks) 5)" using True by simp
      ultimately show ?thesis using eqs by (intro conjI exI[of _ "?new"]) (simp_all add: failure_def)
    next
      case (Inr tx)
      let ?w1 = "record_call (Summarize i (chunks ! i) (Inr tx)) w"
      obtain ys1 r1 w1' where rec: "summarize_loop E f chunks (i + 1) (fullSummary @ tx @ '' '') ?w1 = (ys1, r1, w1')"
        by (metis prod_cases3)
      from "1.IH"[OF True Inr rec] obtain new where
        d: "disk w1' = disk ?w1" and t: "trace w1' = trace ?w1 @ new"
        and si: "summarized_indices new = [i + 1..<i + 1 + length new]"
        and ln: "length (summarized_indices new) = length new"
        and bd: "i + 1 + length new \<le> max (i + 1) (min (length chunks) 5)"
        and an: "list_all is_analyzing ys1"
        and rr: "(case r1 of
         Inr full \<Rightarrow> i + 1 + length new = max (i + 1) (min (length chunks) 5) \<and> length ys1 = length new \<and>
                     full = (fullSummary @ tx @ '' '') @ concat (map (\<lambda>t. t @ '' '') (returned_texts new)) \<and> faults new = []
       | Inl e \<Rightarrow> Suc (length ys1) = length new \<and> faults new = [e])" by blast
      from True Inr rec "1.prems" have eqs: "ys = analyzing_fragment (i + 1) (min (length chunks) 5) (file_name f) # ys1" "r = r1" "w' = w1'"
        by (simp_all add: summarize_loop.simps)
      let ?new = "Summarize i (chunks ! i) (Inr tx) # new"
      have "trace w' = trace w @ ?new" using t eqs by (simp add: record_call_def)
      moreover have "summarized_indices ?new = [i..<i + length ?new]" using si by (simp add: upt_rec)
      moreover have "length (summarized_indices ?new) = length ?new" using ln by simp
      moreover have "i + length ?new \<le> max i (min (length chunks) 5)" using bd True by simp
      moreover have "list_all is_analyzing ys" using an eqs by simp
      moreover have "(case r of
         Inr full \<Rightarrow> i + length ?new = max i (min (length chunks) 5) \<and> length ys = length ?new \<and>
                     full = fullSummary @ concat (map (\<lambda>t. t @ '' '') (returned_texts ?new)) \<and> faults ?new = []
       | Inl e \<Rightarrow> Suc (length ys) = length ?new \<and> faults ?new = [e])" using rr eqs True by (auto simp: failure_def split: sum.splits)
      moreover have "disk w' = disk w" using d eqs by (simp add: record_call_def)
      ultimately show ?thesis by blast
    qed
  qed
qed


lemma analyzing_kind:
  "is_analyzing c \<Longrightarrow> \<not> is_summary c \<and> \<not> is_unified c \<and> \<not> is_error c"
  by (cases c) (auto simp: is_analyzing_def is_summary_def is_unified_def is_error_def brain_def)

lemma filter_analyzing:
  "list_all is_analyzing ys \<Longrightarrow>
   filter is_summary ys = [] \<and> filter is_unified ys = [] \<and> filter is_error ys = [] \<and>
   filter is_analyzing ys = ys"
  by (induction ys) (auto dest: analyzing_kind)

lemma summarized_indices_length: "length (summarized_indices es) \<le> length es"
  by (induction es rule: summarized_indices.induct) auto

lemma all_summarize_no_split:
  "length (summarized_indices es) = length es \<Longrightarrow> Split x \<notin> set es"
proof (induction es)
  case Nil
  then show ?case by simp
next
  case (Cons a es)
  then show ?case using summarized_indices_length[of es] by (cases a) auto
qed

lemma summarized_indices_append:
  "summarized_indices (xs @ ys) = summarized_indices xs @ summarized_indices ys"
  by (induction xs rule: summarized_indices.induct) auto

lemma returned_texts_append: "returned_texts (xs @ ys) = returned_texts xs @ returned_texts ys"
  by (induction xs rule: returned_texts.induct) auto

lemma faults_append: "faults (xs @ ys) = faults xs @ faults ys"
  by (induction xs) (auto split: option.splits)

lemma summarize_loop_start:
  assumes "summarize_loop E f chunks 0 [] w = (ys, r, w')"
  shows "disk w' = disk w \<and>
   (\<exists>new. trace w' = trace w @ new \<and>
      summarized_indices new = [0..<length new] \<and>
      length (summarized_indices new) = length new \<and>
      length new \<le> min (length chunks) 5 \<and>
      list_all is_analyzing ys \<and>
      (case r of
         Inr full \<Rightarrow> length new = min (length chunks) 5 \<and> length ys = length new \<and>
                     full = concat (map (\<lambda>t. t @ '' '') (returned_texts new)) \<and> faults new = []
       | Inl e \<Rightarrow> Suc (length ys) = length new \<and> faults new = [e]))"
proof -
  from summarize_loop_spec[OF assms] obtain new where
    a: "disk w' = disk w" "trace w' = trace w @ new"
      "summarized_indices new = [0..<0 + length new]"
      "length (summarized_indices new) = length new"
      "0 + length new \<le> max 0 (min (length chunks) 5)"
      "list_all is_analyzing ys"
    and b: "(case r of
         Inr full \<Rightarrow> 0 + length new = max 0 (min (length chunks) 5) \<and> length ys = length new \<and>
                     full = [] @ concat (map (\<lambda>t. t @ '' '') (returned_texts new)) \<and> faults new = []
       | Inl e \<Rightarrow> Suc (length ys) = length new \<and> faults new = [e])"
    by blast
  from b have "(case r of
         Inr full \<Rightarrow> length new = min (length chunks) 5 \<and> length ys = length new \<and>
                     full = concat (map (\<lambda>t. t @ '' '') (returned_texts new)) \<and> faults new = []
       | Inl e \<Rightarrow> Suc (length ys) = length new \<and> faults new = [e])"
    by (cases r) simp_all
  with a show ?thesis by (intro conjI exI[of _ new]) simp_all
qed



lemma try_block_spec:
  assumes "try_block E f d w = (ys, r, w')"
  shows "disk w' = disk w \<and>
    (\<exists>new. trace w' = trace w @ new \<and>
       (\<forall>j\<in>set (summarized_indices new). j < 5) \<and>
       filter is_unified ys = [] \<and> filter is_error ys = [] \<and>
       (\<forall>chunks. Split (Inr chunks) \<in> set new \<longrightarrow>
           length (filter is_analyzing ys) \<le> min (length chunks) 5) \<and>
       (case r of
          Inl e \<Rightarrow> faults new = [e]
        | Inr s \<Rightarrow>
            faults new = [] \<and>
            (\<exists>chunks. Split (Inr chunks) \<in> set new \<and>
               summarized_indices new = [0..<min (length chunks) 5] \<and>
               length (filter is_analyzing ys) = min (length chunks) 5) \<and>
            s = trim (join '' '' (returned_texts new)) \<and>
            ys \<noteq> [] \<and> last ys = summary_fragment (file_name f) s \<and>
            filter is_summary ys = [summary_fragment (file_name f) s] \<and>
            (\<forall>c. Split (Inr c) \<in> set new \<longrightarrow>
               length (filter is_analyzing ys) = min (length c) 5)))"
proof -
  define loaded where
    "loaded = loader_load E (clock w) (case disk w d of None \<Rightarrow> None | Some dir \<Rightarrow> dir (file_name f))"
  define w1 where "w1 = record_call (Load d loaded) w"
  have w1: "trace w1 = trace w @ [Load d loaded]" "disk w1 = disk w"
    by (simp_all add: w1_def record_call_def)
  show ?thesis
  proof (cases loaded)
    case (Inl e)
    then have "try_block E f d w = ([], Inl e, w1)"
      unfolding w1_def loaded_def try_block_def Let_def by simp
    with assms have eqs: "ys = []" "r = Inl e" "w' = w1" by simp_all
    have "faults [Load d loaded] = [e]" using Inl by (simp add: failure_def)
    then show ?thesis unfolding eqs using w1
      by (intro conjI exI[of _ "[Load d loaded]"]) simp_all
  next
    case (Inr docs)
    define chunked where "chunked = splitDocuments E (clock w1) docs"
    define w2 where "w2 = record_call (Split chunked) w1"
    have w2: "trace w2 = trace w @ [Load d loaded, Split chunked]" "disk w2 = disk w"
      using w1 by (simp_all add: w2_def record_call_def)
    have unf: "try_block E f d w =
       (case chunked of
          Inl e \<Rightarrow> ([], Inl e, w2)
        | Inr chunks \<Rightarrow>
            (case summarize_loop E f chunks 0 [] w2 of
               (ys, Inl e, w3) \<Rightarrow> (ys, Inl e, w3)
             | (ys, Inr fullSummary, w3) \<Rightarrow>
                 (ys @ [summary_fragment (file_name f) (trim fullSummary)],
                  Inr (trim fullSummary), w3)))"
      using Inr unfolding chunked_def w2_def w1_def loaded_def try_block_def Let_def by simp
    have ld: "fault_of (Load d loaded) = None" using Inr by (simp add: failure_def)
    show ?thesis
    proof (cases chunked)
      case (Inl e)
      with unf assms have eqs: "ys = []" "r = Inl e" "w' = w2" by simp_all
      have "faults [Load d loaded, Split chunked] = [e]" using Inl ld by (simp add: failure_def)
      then show ?thesis unfolding eqs using w2
        by (intro conjI exI[of _ "[Load d loaded, Split chunked]"]) simp_all
    next
      case chunks: (Inr chunks)
      have sp: "fault_of (Split chunked) = None" using chunks by (simp add: failure_def)
      obtain ys1 r1 w3 where loop: "summarize_loop E f chunks 0 [] w2 = (ys1, r1, w3)"
        by (metis prod_cases3)
      from summarize_loop_start[OF loop] obtain new where
        d: "disk w3 = disk w2" and t: "trace w3 = trace w2 @ new"
        and si: "summarized_indices new = [0..<length new]"
        and ln: "length (summarized_indices new) = length new"
        and bd: "length new \<le> min (length chunks) 5"
        and an: "list_all is_analyzing ys1"
        and rr: "(case r1 of
           Inr full \<Rightarrow> length new = min (length chunks) 5 \<and> length ys1 = length new \<and>
                       full = concat (map (\<lambda>t. t @ '' '') (returned_texts new)) \<and> faults new = []
         | Inl e \<Rightarrow> Suc (length ys1) = length new \<and> faults new = [e])"
        by blast
      define evs where "evs = [Load d loaded, Split chunked] @ new"
      have w3: "trace w3 = trace w @ evs" "disk w3 = disk w"
        using t d w2 by (simp_all add: evs_def)
      have idx: "summarized_indices evs = [0..<length new]"
        using si by (simp add: evs_def)
      have rt: "returned_texts evs = returned_texts new"
        by (simp add: evs_def)
      have fl: "faults evs = faults new"
        using ld sp by (simp add: evs_def)
      have splits: "\<And>c. Split (Inr c) \<in> set evs \<Longrightarrow> c = chunks"
        using all_summarize_no_split[OF ln] chunks by (auto simp: evs_def)
      have split_in: "Split (Inr chunks) \<in> set evs"
        using chunks by (simp add: evs_def)
      have fa: "filter is_analyzing ys1 = ys1" "filter is_summary ys1 = []"
        "filter is_unified ys1 = []" "filter is_error ys1 = []"
        using filter_analyzing[OF an] by simp_all
      have small: "\<forall>j\<in>set (summarized_indices evs). j < 5"
        using idx bd by simp
      show ?thesis
      proof (cases r1)
        case (Inl e)
        with unf chunks loop assms have eqs: "ys = ys1" "r = Inl e" "w' = w3" by simp_all
        from rr Inl have "Suc (length ys1) = length new" "faults new = [e]" by simp_all
        then have le: "\<forall>c. Split (Inr c) \<in> set evs \<longrightarrow> length (filter is_analyzing ys1) \<le> min (length c) 5"
          using splits bd fa(1) by auto
        have "faults evs = [e]" using fl \<open>faults new = [e]\<close> by simp
        then show ?thesis unfolding eqs using w3 small fa le
          by (intro conjI exI[of _ evs]) simp_all
      next
        case full: (Inr full)
        define s where "s = trim full"
        from unf chunks loop assms full
        have eqs: "ys = ys1 @ [summary_fragment (file_name f) s]" "r = Inr s" "w' = w3"
          by (simp_all add: s_def)
        from rr full have rf: "length new = min (length chunks) 5" "length ys1 = length new"
          "full = concat (map (\<lambda>t. t @ '' '') (returned_texts new))" "faults new = []" by simp_all
        have tf: "s = trim (join '' '' (returned_texts evs))"
          using rf(3) trim_concat_join rt by (simp add: s_def)
        have f0: "faults evs = []" using rf(4) fl by simp
        have ana: "length (filter is_analyzing ys) = min (length chunks) 5"
          using eqs fa rf by simp
        have le: "\<forall>c. Split (Inr c) \<in> set evs \<longrightarrow> length (filter is_analyzing ys) \<le> min (length c) 5"
          using splits ana by auto
        have ex: "\<exists>c. Split (Inr c) \<in> set evs \<and> summarized_indices evs = [0..<min (length c) 5] \<and>
                 length (filter is_analyzing ys) = min (length c) 5"
          using split_in idx rf(1) ana by (intro exI[of _ chunks]) simp
        have k: "filter is_summary ys = [summary_fragment (file_name f) s]"
          "filter is_unified ys = []" "filter is_error ys = []" "ys \<noteq> []"
          "last ys = summary_fragment (file_name f) s"
          using eqs fa by simp_all
        have cs: "(case r of Inl e \<Rightarrow> faults evs = [e]
          | Inr s \<Rightarrow> faults evs = [] \<and>
            (\<exists>chunks. Split (Inr chunks) \<in> set evs \<and>
               summarized_indices evs = [0..<min (length chunks) 5] \<and>
               length (filter is_analyzing ys) = min (length chunks) 5) \<and>
            s = trim (join '' '' (returned_texts evs)) \<and>
            ys \<noteq> [] \<and> last ys = summary_fragment (file_name f) s \<and>
            filter is_summary ys = [summary_fragment (file_name f) s] \<and>
            (\<forall>c. Split (Inr c) \<in> set evs \<longrightarrow>
               length (filter is_analyzing ys) = min (length c) 5))"
          unfolding eqs(2) using f0 ex tf k splits ana by auto
        show ?thesis
          using w3 small k le cs eqs(3) by (intro conjI exI[of _ evs]) simp_all
      qed
    qed
  qed
qed

lemma processFile_spec:
  assumes "processFile E f w = (ys, r, w')"
  shows "\<exists>new. trace w' = trace w @ new \<and>
       (\<forall>j\<in>set (summarized_indices new). j < 5) \<and>
       filter is_unified ys = [] \<and> filter is_error ys = [] \<and>
       (\<forall>chunks. Split (Inr chunks) \<in> set new \<longrightarrow>
           length (filter is_analyzing ys) \<le> min (length chunks) 5) \<and>
       (case r of
          Inl e \<Rightarrow> faults new \<noteq> [] \<and> last (faults new) = e
        | Inr s \<Rightarrow>
            faults new = [] \<and>
            (\<exists>chunks. Split (Inr chunks) \<in> set new \<and>
               summarized_indices new = [0..<min (length chunks) 5] \<and>
               length (filter is_analyzing ys) = min (length chunks) 5) \<and>
            s = trim (join '' '' (returned_texts new)) \<and>
            ys \<noteq> [] \<and> last ys = summary_fragment (file_name f) s \<and>
            filter is_summary ys = [summary_fragment (file_name f) s] \<and>
            (\<forall>c. Split (Inr c) \<in> set new \<longrightarrow>
               length (filter is_analyzing ys) = min (length c) 5))"
proof -
  define made where "made = fs_mkdtemp E (clock w)"
  define w1 where "w1 = record_call (Mkdtemp made) w"
  have w1: "trace w1 = trace w @ [Mkdtemp made]"
    by (simp add: w1_def record_call_def)
  show ?thesis
  proof (cases made)
    case (Inl e)
    then have "processFile E f w = ([], Inl e, w1)"
      unfolding w1_def made_def processFile_def Let_def by simp
    with assms have eqs: "ys = []" "r = Inl e" "w' = w1" by simp_all
    have "faults [Mkdtemp made] = [e]" using Inl by (simp add: failure_def)
    then show ?thesis unfolding eqs using w1
      by (intro conjI exI[of _ "[Mkdtemp made]"]) simp_all
  next
    case (Inr tempDir)
    have mk: "fault_of (Mkdtemp made) = None" using Inr by (simp add: failure_def)
    define w2 where "w2 = w1\<lparr>disk := (disk w1)(tempDir \<mapsto> Map.empty)\<rparr>"
    define wrote where "wrote = fs_writeFile E (clock w2) tempDir (file_name f) (file_bytes f)"
    define w3 where "w3 = record_call (WriteFile tempDir (file_name f) wrote) w2"
    define w4 where "w4 = w3\<lparr>disk := (disk w3)(tempDir \<mapsto> [file_name f \<mapsto> file_bytes f])\<rparr>"
    have w3: "trace w3 = trace w @ [Mkdtemp made, WriteFile tempDir (file_name f) wrote]"
      using w1 by (simp add: w3_def w2_def record_call_def)
    have w4: "trace w4 = trace w @ [Mkdtemp made, WriteFile tempDir (file_name f) wrote]"
      using w3 by (simp add: w4_def)
    have unf: "processFile E f w =
      (case wrote of
         Inl e \<Rightarrow> ([], Inl e, w3)
       | Inr u \<Rightarrow>
           (case try_block E f tempDir w4 of
              (ys, r, w5) \<Rightarrow>
                (case fs_rm E (clock w5) tempDir of
                   Inl e \<Rightarrow> (processing_fragment (file_name f) # ys, Inl e,
                             record_call (Rm tempDir (fs_rm E (clock w5) tempDir)) w5)
                 | Inr u \<Rightarrow>
                     (processing_fragment (file_name f) # ys, r,
                      (record_call (Rm tempDir (fs_rm E (clock w5) tempDir)) w5)
                        \<lparr>disk := (disk (record_call (Rm tempDir (fs_rm E (clock w5) tempDir)) w5))
                                   (tempDir := None)\<rparr>))))"
      using Inr unfolding w4_def w3_def wrote_def w2_def w1_def made_def processFile_def Let_def
      by simp
    show ?thesis
    proof (cases wrote)
      case (Inl e)
      with unf assms have eqs: "ys = []" "r = Inl e" "w' = w3" by simp_all
      have "faults [Mkdtemp made, WriteFile tempDir (file_name f) wrote] = [e]"
        using Inl mk by (simp add: failure_def)
      then show ?thesis unfolding eqs using w3
        by (intro conjI exI[of _ "[Mkdtemp made, WriteFile tempDir (file_name f) wrote]"]) simp_all
    next
      case wr: (Inr u)
      have wf: "fault_of (WriteFile tempDir (file_name f) wrote) = None"
        using wr by (simp add: failure_def)
      obtain ys1 r1 w5 where tb: "try_block E f tempDir w4 = (ys1, r1, w5)"
        by (metis prod_cases3)
      define removed where "removed = fs_rm E (clock w5) tempDir"
      define w6 where "w6 = record_call (Rm tempDir removed) w5"
      from try_block_spec[OF tb] obtain nt where
        t: "trace w5 = trace w4 @ nt"
        and small: "\<forall>j\<in>set (summarized_indices nt). j < 5"
        and nu: "filter is_unified ys1 = []" and ne: "filter is_error ys1 = []"
        and le: "\<forall>chunks. Split (Inr chunks) \<in> set nt \<longrightarrow>
                   length (filter is_analyzing ys1) \<le> min (length chunks) 5"
        and rr: "(case r1 of
          Inl e \<Rightarrow> faults nt = [e]
        | Inr s \<Rightarrow>
            faults nt = [] \<and>
            (\<exists>chunks. Split (Inr chunks) \<in> set nt \<and>
               summarized_indices nt = [0..<min (length chunks) 5] \<and>
               length (filter is_analyzing ys1) = min (length chunks) 5) \<and>
            s = trim (join '' '' (returned_texts nt)) \<and>
            ys1 \<noteq> [] \<and> last ys1 = summary_fragment (file_name f) s \<and>
            filter is_summary ys1 = [summary_fragment (file_name f) s] \<and>
            (\<forall>c. Split (Inr c) \<in> set nt \<longrightarrow>
               length (filter is_analyzing ys1) = min (length c) 5))"
        by blast
      define evs where
        "evs = [Mkdtemp made, WriteFile tempDir (file_name f) wrote] @ nt @ [Rm tempDir removed]"
      have w6: "trace w6 = trace w @ evs"
        using t w4 by (simp add: w6_def evs_def record_call_def)
      have idx: "summarized_indices evs = summarized_indices nt"
        by (simp add: evs_def summarized_indices_append)
      have rt: "returned_texts evs = returned_texts nt"
        by (simp add: evs_def returned_texts_append)
      have fl: "faults evs = faults nt @ faults [Rm tempDir removed]"
        using mk wf by (simp add: evs_def faults_append)
      have splits: "\<And>c. Split c \<in> set evs \<longleftrightarrow> Split c \<in> set nt"
        by (auto simp: evs_def)
      have ys: "ys = processing_fragment (file_name f) # ys1"
        using unf wr tb assms by (auto split: sum.splits)
      have w': "trace w' = trace w @ evs"
        using unf wr tb assms w6
        by (auto simp: removed_def w6_def record_call_def split: sum.splits)
      have k: "filter is_unified ys = []" "filter is_error ys = []"
        "filter is_analyzing ys = filter is_analyzing ys1"
        "filter is_summary ys = filter is_summary ys1"
        using ys nu ne by simp_all
      have le': "\<forall>chunks. Split (Inr chunks) \<in> set evs \<longrightarrow>
                   length (filter is_analyzing ys) \<le> min (length chunks) 5"
        using le splits k(3) by simp
      have small': "\<forall>j\<in>set (summarized_indices evs). j < 5"
        using small idx by simp
      have cs: "(case r of
          Inl e \<Rightarrow> faults evs \<noteq> [] \<and> last (faults evs) = e
        | Inr s \<Rightarrow>
            faults evs = [] \<and>
            (\<exists>chunks. Split (Inr chunks) \<in> set evs \<and>
               summarized_indices evs = [0..<min (length chunks) 5] \<and>
               length (filter is_analyzing ys) = min (length chunks) 5) \<and>
            s = trim (join '' '' (returned_texts evs)) \<and>
            ys \<noteq> [] \<and> last ys = summary_fragment (file_name f) s \<and>
            filter is_summary ys = [summary_fragment (file_name f) s] \<and>
            (\<forall>c. Split (Inr c) \<in> set evs \<longrightarrow>
               length (filter is_analyzing ys) = min (length c) 5))"
      proof (cases removed)
        case (Inl e2)
        then have "r = Inl e2" using unf wr tb assms by (simp add: removed_def)
        moreover have "faults [Rm tempDir removed] = [e2]" using Inl by (simp add: failure_def)
        ultimately show ?thesis using fl by simp
      next
        case (Inr u2)
        then have r: "r = r1" using unf wr tb assms by (simp add: removed_def)
        have f0: "faults [Rm tempDir removed] = []" using Inr by (simp add: failure_def)
        show ?thesis
        proof (cases r1)
          case (Inl e)
          then show ?thesis using rr r fl f0 by simp
        next
          case (Inr s)
          with rr have a: "faults nt = []"
            "\<exists>chunks. Split (Inr chunks) \<in> set nt \<and>
               summarized_indices nt = [0..<min (length chunks) 5] \<and>
               length (filter is_analyzing ys1) = min (length chunks) 5"
            "s = trim (join '' '' (returned_texts nt))"
            "ys1 \<noteq> []" "last ys1 = summary_fragment (file_name f) s"
            "filter is_summary ys1 = [summary_fragment (file_name f) s]"
            "\<forall>c. Split (Inr c) \<in> set nt \<longrightarrow>
               length (filter is_analyzing ys1) = min (length c) 5" by simp_all
          have "last ys = summary_fragment (file_name f) s" "ys \<noteq> []"
            using ys a(4,5) by simp_all
          then show ?thesis unfolding r Inr using a fl f0 idx rt splits k by simp
        qed
      qed
      show ?thesis using w' small' k(1,2) le' cs by (intro exI[of _ evs] conjI)
    qed
  qed
qed

lemma new_events_append: "trace w' = trace w @ new \<Longrightarrow> new_events w w' = new"
  by (simp add: new_events_def)






text \<open>
  C3. The directory is made and the file is written in front of the \<^verbatim>\<open>try\<close> whose \<^verbatim>\<open>finally\<close> removes
  the directory. When the write fails, \<open>processFile\<close> throws with the directory still on the disk:
  \<^verbatim>\<open>fs.rm\<close> is never called. On the paths that enter the \<^verbatim>\<open>try\<close> (success, or a loader that
  rejects the file) the directory is gone afterwards.
\<close>

theorem staging_directory_leak:
  "fst (snd (processFile disk_full_env a_pdf empty_world))
     = Inl (Error ''ENOSPC: no space left on device'') \<and>
   new_events empty_world (snd (snd (processFile disk_full_env a_pdf empty_world)))
     = [Mkdtemp (Inr ''/tmp/pdf-upload-0''),
        WriteFile ''/tmp/pdf-upload-0'' ''a.pdf'' (Inl (Error ''ENOSPC: no space left on device''))] \<and>
   disk (snd (snd (processFile disk_full_env a_pdf empty_world))) ''/tmp/pdf-upload-0'' \<noteq> None \<and>
   disk (snd (snd (processFile ok_env a_pdf empty_world))) ''/tmp/pdf-upload-0'' = None \<and>
   fst (snd (processFile parse_error_env a_pdf empty_world)) = Inl (Error ''Invalid PDF structure'') \<and>
   disk (snd (snd (processFile parse_error_env a_pdf empty_world))) ''/tmp/pdf-upload-0'' = None"
  by code_simp

section \<open>The streaming worker\<close>

lemma foldl_write:
  "written (foldl (\<lambda>a c. writer_write c a) wr ys) = written wr @ ys \<and>
   closes (foldl (\<lambda>a c. writer_write c a) wr ys) = closes wr"
  by (induction ys arbitrary: wr) (simp_all add: writer_write_def)

lemma process_files_spec:
  "process_files E files sums wr w = (r, wr', w') \<Longrightarrow>
   closes wr' = closes wr \<and>
   (\<exists>ys new. written wr' = written wr @ ys \<and> trace w' = trace w @ new \<and>
      filter is_unified ys = [] \<and> filter is_error ys = [] \<and>
      (case r of
         Inl e \<Rightarrow> faults new \<noteq> [] \<and> last (faults new) = e
       | Inr sums' \<Rightarrow>
           faults new = [] \<and>
           (\<exists>ss. length ss = length files \<and>
              filter is_summary ys = map (\<lambda>(f, s). summary_fragment (file_name f) s) (zip files ss) \<and>
              sums' = sums @ map (\<lambda>(f, s). summary_fragment (file_name f) s) (zip files ss))))"
proof (induction files arbitrary: sums wr w)
  case Nil
  then have "r = Inr sums" "wr' = wr" "w' = w" by simp_all
  then show ?case
    by (intro conjI exI[of _ "[]"]) simp_all
next
  case (Cons f fs)
  obtain ys1 r1 w1 where pf: "processFile E f w = (ys1, r1, w1)"
    by (metis prod_cases3)
  define wr1 where "wr1 = foldl (\<lambda>a c. writer_write c a) wr ys1"
  have wr1: "written wr1 = written wr @ ys1" "closes wr1 = closes wr"
    using foldl_write[of wr ys1] by (simp_all add: wr1_def)
  from processFile_spec[OF pf] obtain new1 where
    t1: "trace w1 = trace w @ new1"
    and k1: "filter is_unified ys1 = []" "filter is_error ys1 = []"
    and rr: "(case r1 of
          Inl e \<Rightarrow> faults new1 \<noteq> [] \<and> last (faults new1) = e
        | Inr s \<Rightarrow>
            faults new1 = [] \<and>
            (\<exists>chunks. Split (Inr chunks) \<in> set new1 \<and>
               summarized_indices new1 = [0..<min (length chunks) 5] \<and>
               length (filter is_analyzing ys1) = min (length chunks) 5) \<and>
            s = trim (join '' '' (returned_texts new1)) \<and>
            ys1 \<noteq> [] \<and> last ys1 = summary_fragment (file_name f) s \<and>
            filter is_summary ys1 = [summary_fragment (file_name f) s] \<and>
            (\<forall>c. Split (Inr c) \<in> set new1 \<longrightarrow>
               length (filter is_analyzing ys1) = min (length c) 5))"
    by blast
  show ?case
  proof (cases r1)
    case (Inl e)
    with Cons.prems pf have eqs: "r = Inl e" "wr' = wr1" "w' = w1"
      by (simp_all add: wr1_def)
    from rr Inl have "faults new1 \<noteq> []" "last (faults new1) = e" by simp_all
    then show ?thesis unfolding eqs using wr1 t1 k1
      by (intro conjI exI[of _ ys1] exI[of _ new1]) simp_all
  next
    case (Inr s)
    from rr Inr have f1: "faults new1 = []"
      and s1: "filter is_summary ys1 = [summary_fragment (file_name f) s]" by simp_all
    define sums1 where "sums1 = sums @ filter (\<lambda>c. prefix ''Summary for'' c) ys1"
    have sums1: "sums1 = sums @ [summary_fragment (file_name f) s]"
      using s1 by (simp add: sums1_def is_summary_def[abs_def])
    from Cons.prems pf Inr have rec: "process_files E fs sums1 wr1 w1 = (r, wr', w')"
      by (simp add: wr1_def sums1_def)
    from Cons.IH[OF rec] obtain ys2 new2 where
      c: "closes wr' = closes wr1"
      and o: "written wr' = written wr1 @ ys2" "trace w' = trace w1 @ new2"
      and k2: "filter is_unified ys2 = []" "filter is_error ys2 = []"
      and r2: "(case r of
         Inl e \<Rightarrow> faults new2 \<noteq> [] \<and> last (faults new2) = e
       | Inr sums' \<Rightarrow>
           faults new2 = [] \<and>
           (\<exists>ss. length ss = length fs \<and>
              filter is_summary ys2 = map (\<lambda>(f, s). summary_fragment (file_name f) s) (zip fs ss) \<and>
              sums' = sums1 @ map (\<lambda>(f, s). summary_fragment (file_name f) s) (zip fs ss)))"
      by blast
    have fl: "faults (new1 @ new2) = faults new2" using f1 by (simp add: faults_append)
    have cs: "(case r of
         Inl e \<Rightarrow> faults (new1 @ new2) \<noteq> [] \<and> last (faults (new1 @ new2)) = e
       | Inr sums' \<Rightarrow>
           faults (new1 @ new2) = [] \<and>
           (\<exists>ss. length ss = length (f # fs) \<and>
              filter is_summary (ys1 @ ys2)
                = map (\<lambda>(f, s). summary_fragment (file_name f) s) (zip (f # fs) ss) \<and>
              sums' = sums @ map (\<lambda>(f, s). summary_fragment (file_name f) s) (zip (f # fs) ss)))"
    proof (cases r)
      case (Inl e)
      then show ?thesis using r2 fl by simp
    next
      case sums': (Inr sums')
      with r2 obtain ss where ss: "length ss = length fs"
        "filter is_summary ys2 = map (\<lambda>(f, s). summary_fragment (file_name f) s) (zip fs ss)"
        "sums' = sums1 @ map (\<lambda>(f, s). summary_fragment (file_name f) s) (zip fs ss)"
        and f2: "faults new2 = []" by auto
      have "length (s # ss) = length (f # fs)" using ss(1) by simp
      moreover have "filter is_summary (ys1 @ ys2)
                = map (\<lambda>(f, s). summary_fragment (file_name f) s) (zip (f # fs) (s # ss))"
        using s1 ss(2) by simp
      moreover have "sums' = sums @ map (\<lambda>(f, s). summary_fragment (file_name f) s) (zip (f # fs) (s # ss))"
        using sums1 ss(3) by simp
      ultimately have "\<exists>ss'. length ss' = length (f # fs) \<and>
              filter is_summary (ys1 @ ys2)
                = map (\<lambda>(f, s). summary_fragment (file_name f) s) (zip (f # fs) ss') \<and>
              sums' = sums @ map (\<lambda>(f, s). summary_fragment (file_name f) s) (zip (f # fs) ss')"
        by blast
      then show ?thesis unfolding sums' using fl f2 by simp
    qed
    show ?thesis using c wr1 o t1 k1 k2 cs
      by (intro conjI exI[of _ "ys1 @ ys2"] exI[of _ "new1 @ new2"]) simp_all
  qed
qed

lemma worker_spec:
  assumes "worker E files wr w = (r, wr', w')"
  shows "closes wr' = closes wr + 1 \<and>
   (\<exists>out new. written wr' = written wr @ out \<and> trace w' = trace w @ new \<and>
      (case r of
         Inl e \<Rightarrow>
           faults new \<noteq> [] \<and> last (faults new) = e \<and>
           (\<exists>partial. out = partial @ [error_fragment e] \<and>
              filter is_unified partial = [] \<and> filter is_error partial = [])
       | Inr u \<Rightarrow>
           faults new = [] \<and>
           (\<exists>pre ss answer. out = pre @ [unified_fragment answer] \<and>
              filter is_unified pre = [] \<and> filter is_error pre = [] \<and>
              length ss = length files \<and>
              filter is_summary pre
                = map (\<lambda>(f, s). summary_fragment (file_name f) s) (zip files ss))))"
proof -
  obtain r0 wr1 w1 where pf: "process_files E files [] wr w = (r0, wr1, w1)"
    by (metis prod_cases3)
  from process_files_spec[OF pf] obtain ys new where
    c: "closes wr1 = closes wr"
    and o: "written wr1 = written wr @ ys" "trace w1 = trace w @ new"
    and k: "filter is_unified ys = []" "filter is_error ys = []"
    and rr: "(case r0 of
         Inl e \<Rightarrow> faults new \<noteq> [] \<and> last (faults new) = e
       | Inr sums' \<Rightarrow>
           faults new = [] \<and>
           (\<exists>ss. length ss = length files \<and>
              filter is_summary ys = map (\<lambda>(f, s). summary_fragment (file_name f) s) (zip files ss) \<and>
              sums' = [] @ map (\<lambda>(f, s). summary_fragment (file_name f) s) (zip files ss)))"
    by blast
  show ?thesis
  proof (cases r0)
    case (Inl e)
    have "worker E files wr w = (Inl e, writer_close (writer_write (error_fragment e) wr1), w1)"
      using pf Inl by (simp add: worker_def worker_try_def)
    with assms have eqs: "r = Inl e" "wr' = writer_close (writer_write (error_fragment e) wr1)"
      "w' = w1" by simp_all
    have wr': "written wr' = written wr @ (ys @ [error_fragment e])" "closes wr' = closes wr + 1"
      using o c by (simp_all add: eqs writer_close_def writer_write_def)
    from rr Inl have f: "faults new \<noteq> []" "last (faults new) = e" by simp_all
    have "\<exists>partial. ys @ [error_fragment e] = partial @ [error_fragment e] \<and>
              filter is_unified partial = [] \<and> filter is_error partial = []"
      using k by blast
    then show ?thesis unfolding eqs(1) using wr' o(2) f eqs(3)
      by (intro conjI exI[of _ "ys @ [error_fragment e]"] exI[of _ new]) simp_all
  next
    case (Inr sums)
    from rr Inr obtain ss where f0: "faults new = []" and ss: "length ss = length files"
      "filter is_summary ys = map (\<lambda>(f, s). summary_fragment (file_name f) s) (zip files ss)"
      by auto
    define prompt where "prompt = join ''\<newline>'' sums"
    define answer where "answer = unifiedAnalysisChain_call E (clock w1) prompt"
    define w2 where "w2 = record_call (Synthesize prompt answer) w1"
    define wr2 where "wr2 = writer_write synthesizing_fragment wr1"
    have w2: "trace w2 = trace w @ (new @ [Synthesize prompt answer])"
      using o by (simp add: w2_def record_call_def)
    have wr2: "written wr2 = written wr @ (ys @ [synthesizing_fragment])" "closes wr2 = closes wr"
      using o c by (simp_all add: wr2_def writer_write_def)
    have k2: "filter is_unified (ys @ [synthesizing_fragment]) = []"
      "filter is_error (ys @ [synthesizing_fragment]) = []"
      "filter is_summary (ys @ [synthesizing_fragment]) = filter is_summary ys"
      using k by simp_all
    have unf: "worker_try E files wr w =
       (case answer of
          Inl e \<Rightarrow> (Inl e, wr2, w2)
        | Inr t \<Rightarrow> (Inr (), writer_write (unified_fragment t) wr2, w2))"
      using pf Inr unfolding worker_try_def wr2_def w2_def answer_def prompt_def Let_def by simp
    show ?thesis
    proof (cases answer)
      case (Inl e)
      have "worker E files wr w = (Inl e, writer_close (writer_write (error_fragment e) wr2), w2)"
        using unf Inl by (simp add: worker_def)
      with assms have eqs: "r = Inl e" "wr' = writer_close (writer_write (error_fragment e) wr2)"
        "w' = w2" by simp_all
      have wr': "written wr' = written wr @ ((ys @ [synthesizing_fragment]) @ [error_fragment e])"
        "closes wr' = closes wr + 1"
        using wr2 by (simp_all add: eqs writer_close_def writer_write_def)
      have f: "faults (new @ [Synthesize prompt answer]) = [e]"
        using f0 Inl by (simp add: faults_append failure_def)
      have "\<exists>partial. (ys @ [synthesizing_fragment]) @ [error_fragment e] = partial @ [error_fragment e] \<and>
              filter is_unified partial = [] \<and> filter is_error partial = []"
        using k2 by blast
      then show ?thesis unfolding eqs(1) using wr' w2 f eqs(3)
        by (intro conjI exI[of _ "(ys @ [synthesizing_fragment]) @ [error_fragment e]"]
              exI[of _ "new @ [Synthesize prompt answer]"]) simp_all
    next
      case t: (Inr t)
      have "worker E files wr w = (Inr (), writer_close (writer_write (unified_fragment t) wr2), w2)"
        using unf t by (simp add: worker_def)
      with assms have eqs: "r = Inr ()" "wr' = writer_close (writer_write (unified_fragment t) wr2)"
        "w' = w2" by simp_all
      have wr': "written wr' = written wr @ ((ys @ [synthesizing_fragment]) @ [unified_fragment t])"
        "closes wr' = closes wr + 1"
        using wr2 by (simp_all add: eqs writer_close_def writer_write_def)
      have f: "faults (new @ [Synthesize prompt answer]) = []"
        using f0 t by (simp add: faults_append failure_def)
      have "\<exists>pre ss answer. (ys @ [synthesizing_fragment]) @ [unified_fragment t]
                = pre @ [unified_fragment answer] \<and>
              filter is_unified pre = [] \<and> filter is_error pre = [] \<and>
              length ss = length files \<and>
              filter is_summary pre
                = map (\<lambda>(f, s). summary_fragment (file_name f) s) (zip files ss)"
        using k2 ss
        by (intro exI[of _ "ys @ [synthesizing_fragment]"] exI[of _ ss] exI[of _ t] conjI) simp_all
      then show ?thesis unfolding eqs(1) using wr' w2 f eqs(3)
        by (intro conjI exI[of _ "(ys @ [synthesizing_fragment]) @ [unified_fragment t]"]
              exI[of _ "new @ [Synthesize prompt answer]"]) simp_all
    qed
  qed
qed

lemma POST_stream:
  assumes "POST E data w = (resp, w')" "getAll ''files'' data \<noteq> []"
  shows "\<exists>r wr. worker E (getAll ''files'' data) \<lparr>written = [], closes = 0\<rparr> w = (r, wr, w') \<and>
    resp = \<lparr>status = 200, content_type = Some ''text/plain; charset=utf-8'', body = Stream wr\<rparr>"
proof -
  obtain r wr w1 where wk: "worker E (getAll ''files'' data) \<lparr>written = [], closes = 0\<rparr> w = (r, wr, w1)"
    by (metis prod_cases3)
  with assms have "resp = \<lparr>status = 200, content_type = Some ''text/plain; charset=utf-8'', body = Stream wr\<rparr>"
    "w' = w1"
    by (simp_all add: POST_def Let_def)
  with wk show ?thesis by blast
qed

text \<open>
  C1, amended. A request with N files in which no step faults is answered with a stream that
  holds exactly N fragments starting with \<open>Summary for\<close> (the test the route itself applies),
  one per file and in the order of the files in the form data, all of them in front of the only
  fragment that starts with \<open>Unified Analysis:\<close>, which is the last one; the stream is then
  closed, once.
\<close>

theorem successful_stream:
  assumes "POST E data w = (resp, w')" "getAll ''files'' data \<noteq> []"
    "faults (new_events w w') = []"
  shows "status resp = 200 \<and>
    (\<exists>wr pre ss answer. body resp = Stream wr \<and>
       written wr = pre @ [unified_fragment answer] \<and>
       filter is_unified pre = [] \<and>
       length ss = length (getAll ''files'' data) \<and>
       filter is_summary pre
         = map (\<lambda>(f, s). summary_fragment (file_name f) s) (zip (getAll ''files'' data) ss) \<and>
       length (filter is_summary (written wr)) = length (getAll ''files'' data) \<and>
       filter is_unified (written wr) = [unified_fragment answer] \<and>
       closes wr = 1)"
proof -
  from POST_stream[OF assms(1,2)] obtain r wr where
    wk: "worker E (getAll ''files'' data) \<lparr>written = [], closes = 0\<rparr> w = (r, wr, w')"
    and resp: "resp = \<lparr>status = 200, content_type = Some ''text/plain; charset=utf-8'', body = Stream wr\<rparr>"
    by blast
  from worker_spec[OF wk] obtain out new where
    c: "closes wr = 1" and o: "written wr = out" and t: "trace w' = trace w @ new"
    and rr: "(case r of
         Inl e \<Rightarrow>
           faults new \<noteq> [] \<and> last (faults new) = e \<and>
           (\<exists>partial. out = partial @ [error_fragment e] \<and>
              filter is_unified partial = [] \<and> filter is_error partial = [])
       | Inr u \<Rightarrow>
           faults new = [] \<and>
           (\<exists>pre ss answer. out = pre @ [unified_fragment answer] \<and>
              filter is_unified pre = [] \<and> filter is_error pre = [] \<and>
              length ss = length (getAll ''files'' data) \<and>
              filter is_summary pre
                = map (\<lambda>(f, s). summary_fragment (file_name f) s) (zip (getAll ''files'' data) ss)))"
    by auto
  have n: "new_events w w' = new" using t by (rule new_events_append)
  from assms(3) n have f0: "faults new = []" by simp
  have "\<exists>pre ss answer. out = pre @ [unified_fragment answer] \<and>
              filter is_unified pre = [] \<and> filter is_error pre = [] \<and>
              length ss = length (getAll ''files'' data) \<and>
              filter is_summary pre
                = map (\<lambda>(f, s). summary_fragment (file_name f) s) (zip (getAll ''files'' data) ss)"
    using rr f0 by (cases r) simp_all
  then obtain pre ss answer where p: "out = pre @ [unified_fragment answer]"
    "filter is_unified pre = []" "length ss = length (getAll ''files'' data)"
    "filter is_summary pre
        = map (\<lambda>(f, s). summary_fragment (file_name f) s) (zip (getAll ''files'' data) ss)"
    by blast
  have q: "length (filter is_summary out) = length (getAll ''files'' data)"
    "filter is_unified out = [unified_fragment answer]"
    using p by simp_all
  have "body resp = Stream wr" "status resp = 200" using resp by simp_all
  then show ?thesis using p q c o
    by (intro conjI exI[of _ wr] exI[of _ pre] exI[of _ ss] exI[of _ answer]) simp_all
qed

theorem successful_stream_witness:
  "faults (new_events empty_world (snd (POST ok_env two_files_request empty_world))) = [] \<and>
   filter is_summary (fragments (fst (POST ok_env two_files_request empty_world)))
     = [''Summary for a.pdf:\<newline>sum(xyz)\<newline>\<newline>'', ''Summary for b.pdf:\<newline>sum(uvw)\<newline>\<newline>''] \<and>
   (\<exists>wr pre answer. body (fst (POST ok_env two_files_request empty_world)) = Stream wr \<and>
      written wr = pre @ [unified_fragment answer] \<and> filter is_unified pre = [] \<and> closes wr = 1)"
proof -
  have f: "faults (new_events empty_world (snd (POST ok_env two_files_request empty_world))) = []"
    by code_simp
  have g: "getAll ''files'' two_files_request \<noteq> []"
    by code_simp
  have s: "filter is_summary (fragments (fst (POST ok_env two_files_request empty_world)))
     = [''Summary for a.pdf:\<newline>sum(xyz)\<newline>\<newline>'', ''Summary for b.pdf:\<newline>sum(uvw)\<newline>\<newline>'']"
    by code_simp
  have p: "POST ok_env two_files_request empty_world =
    (fst (POST ok_env two_files_request empty_world), snd (POST ok_env two_files_request empty_world))"
    by simp
  from successful_stream[OF p g f] show ?thesis using f s by blast
qed

text \<open>
  C1 as stated counts the fragments that contain the marker. A file whose name contains
  \<open>Summary for\<close> puts the marker into its \<open>Processing\<close> and \<open>Analyzing section\<close> fragments
  as well: one file, no fault, three fragments with the marker.
\<close>

theorem marker_count_counterexample:
  "faults (new_events empty_world (snd (POST ok_env marker_named_request empty_world))) = [] \<and>
   length (getAll ''files'' marker_named_request) = 1 \<and>
   length (filter (mentions SUMMARY_FOR)
             (fragments (fst (POST ok_env marker_named_request empty_world)))) = 3"
  by code_simp



section \<open>Request validation\<close>

text \<open>
  C5. A POST whose form data has no entry in the field \<open>files\<close> is answered with status 400 and
  the text body \<open>No files uploaded\<close>; the body is not a stream, and nothing outside the handler
  has been touched.
\<close>

theorem post_without_files:
  "getAll ''files'' data = [] \<Longrightarrow>
   POST E data w =
     (\<lparr>status = 400, content_type = None, body = Text ''No files uploaded''\<rparr>, w)"
  by (simp add: POST_def)

theorem post_without_files_witness:
  "getAll ''files'' [(''notes'', a_pdf)] = [] \<and>
   POST ok_env [(''notes'', a_pdf)] empty_world =
     (\<lparr>status = 400, content_type = None, body = Text ''No files uploaded''\<rparr>, empty_world)"
  using post_without_files [of "[(''notes'', a_pdf)]" ok_env empty_world]
  by (simp add: getAll_def)

section \<open>The page\<close>

lemma split_from_pieces:
  "m \<noteq> [] \<Longrightarrow>
   split_from acc s m =
     (rev acc @ before_first s m)
       # (case after_first s m of None \<Rightarrow> [] | Some r \<Rightarrow> split_from [] r m)"
proof (induction acc s m rule: split_from.induct)
  case (1 acc sep)
  then show ?case by (simp add: split_from.simps)
next
  case (2 acc c cs sep)
  show ?case
  proof (cases "prefix sep (c # cs)")
    case True
    with "2.prems" show ?thesis by (simp add: split_from.simps)
  next
    case False
    with "2.prems" have "split_from acc (c # cs) sep = split_from (c # acc) cs sep"
      by (simp add: split_from.simps)
    also have "\<dots> = (rev (c # acc) @ before_first cs sep)
       # (case after_first cs sep of None \<Rightarrow> [] | Some r \<Rightarrow> split_from [] r sep)"
      using "2.IH"(2) False "2.prems" by simp
    finally show ?thesis using False by simp
  qed
qed

lemma split_second:
  assumes "m \<noteq> []"
  shows "index (split s m) 1 = map_option (\<lambda>r. before_first r m) (after_first s m)"
proof (cases "after_first s m")
  case None
  then show ?thesis using assms split_from_pieces[OF assms, of "[]" s]
    by (simp add: split_def)
next
  case (Some r)
  have "split s m = before_first s m # split_from [] r m"
    using assms Some split_from_pieces[OF assms, of "[]" s] by (simp add: split_def)
  also have "split_from [] r m = before_first r m
      # (case after_first r m of None \<Rightarrow> [] | Some r' \<Rightarrow> split_from [] r' m)"
    using split_from_pieces[OF assms, of "[]" r] by simp
  finally show ?thesis using Some by simp
qed

lemma includes_after_first: "str_includes s m \<longleftrightarrow> after_first s m \<noteq> None"
  by (induction s) auto

lemma before_first_whole: "\<not> str_includes r m \<Longrightarrow> before_first r m = r"
  by (induction r) auto

lemma includes_append: "str_includes b m \<Longrightarrow> str_includes (a @ b) m"
  by (induction a) auto

lemma markers_nonempty: "SUMMARY_FOR \<noteq> []" "UNIFIED_ANALYSIS \<noteq> []"
  by (simp_all add: SUMMARY_FOR_def UNIFIED_ANALYSIS_def)

lemma push_fields:
  "summaries_array (push s p) = summaries_array p @ [s]"
  "accumulatedText (push s p) = accumulatedText p"
  "scientificProcess (push s p) = scientificProcess p"
  "currentSummary (push s p) = currentSummary p"
  "error (push s p) = error p" "isLoading (push s p) = isLoading p"
  "results p = None \<Longrightarrow> results (push s p) = None"
  by (simp_all add: push_def)

lemma summary_step_fields:
  "accumulatedText (summary_step chunk p) = accumulatedText p"
  "scientificProcess (summary_step chunk p) = scientificProcess p"
  "error (summary_step chunk p) = error p" "isLoading (summary_step chunk p) = isLoading p"
  "results p = None \<Longrightarrow> results (summary_step chunk p) = None"
  by (simp_all add: summary_step_def push_fields Let_def)

lemma summary_step_marker:
  assumes "str_includes chunk SUMMARY_FOR"
  shows "\<exists>rest. after_first chunk SUMMARY_FOR = Some rest \<and>
    currentSummary (summary_step chunk p) = before_first rest SUMMARY_FOR \<and>
    summaries_array (summary_step chunk p)
      = summaries_array p @ (if currentSummary p = [] then [] else [trim (currentSummary p)])"
proof -
  from assms obtain rest where r: "after_first chunk SUMMARY_FOR = Some rest"
    by (auto simp: includes_after_first)
  then have i: "index (split chunk SUMMARY_FOR) 1 = Some (before_first rest SUMMARY_FOR)"
    using split_second[OF markers_nonempty(1), of chunk] by simp
  show ?thesis using assms r i
    by (intro exI[of _ rest]) (simp add: summary_step_def push_fields Let_def)
qed

lemma unified_step_marker:
  assumes "str_includes chunk UNIFIED_ANALYSIS" "str_includes (accumulatedText q) UNIFIED_ANALYSIS"
  shows "\<exists>rest p'. after_first (accumulatedText q) UNIFIED_ANALYSIS = Some rest \<and>
    unified_step chunk q = (None, p') \<and>
    summaries_array p'
      = summaries_array q @ (if currentSummary q = [] then [] else [trim (currentSummary q)]) \<and>
    results p' = Some \<lparr>summaries = summaries_array p',
                        unifiedAnalysis = trim (before_first rest UNIFIED_ANALYSIS)\<rparr> \<and>
    accumulatedText p' = accumulatedText q \<and> scientificProcess p' = scientificProcess q \<and>
    error p' = error q \<and> isLoading p' = isLoading q"
proof -
  from assms(2) obtain rest where r: "after_first (accumulatedText q) UNIFIED_ANALYSIS = Some rest"
    by (auto simp: includes_after_first)
  define q' where "q' = (if currentSummary q \<noteq> [] then push (trim (currentSummary q)) q else q)"
  have q': "accumulatedText q' = accumulatedText q" "scientificProcess q' = scientificProcess q"
    "error q' = error q" "isLoading q' = isLoading q"
    "summaries_array q'
      = summaries_array q @ (if currentSummary q = [] then [] else [trim (currentSummary q)])"
    by (simp_all add: q'_def push_fields)
  have i: "index (split (accumulatedText q') UNIFIED_ANALYSIS) 1
      = Some (before_first rest UNIFIED_ANALYSIS)"
    using split_second[OF markers_nonempty(2), of "accumulatedText q"] r q'(1) by simp
  have u: "unified_step chunk q =
      (None, q'\<lparr>results := Some \<lparr>summaries = summaries_array q',
                   unifiedAnalysis = trim (before_first rest UNIFIED_ANALYSIS)\<rparr>\<rparr>)"
    using assms(1) i unfolding unified_step_def Let_def q'_def[symmetric] by simp
  show ?thesis using r u q'
    by (intro exI[of _ rest] exI[of _ "q'\<lparr>results := Some \<lparr>summaries = summaries_array q',
                   unifiedAnalysis = trim (before_first rest UNIFIED_ANALYSIS)\<rparr>\<rparr>"]) simp
qed

lemma on_chunk_total:
  "\<exists>p'. on_chunk chunk p = (None, p') \<and>
     scientificProcess p' = scientificProcess p @ chunk \<and>
     accumulatedText p' = accumulatedText p @ chunk \<and>
     error p' = error p \<and> isLoading p' = isLoading p \<and>
     (\<not> str_includes chunk UNIFIED_ANALYSIS \<longrightarrow> results p = None \<longrightarrow> results p' = None)"
proof -
  define p0 where "p0 = p\<lparr>accumulatedText := accumulatedText p @ chunk,
             scientificProcess := scientificProcess p @ chunk\<rparr>"
  define q where "q = summary_step chunk p0"
  have q: "accumulatedText q = accumulatedText p @ chunk"
    "scientificProcess q = scientificProcess p @ chunk"
    "error q = error p" "isLoading q = isLoading p"
    "results p = None \<Longrightarrow> results q = None"
    by (simp_all add: q_def summary_step_fields p0_def)
  have oc: "on_chunk chunk p = unified_step chunk q"
    by (simp add: on_chunk_def q_def p0_def)
  show ?thesis
  proof (cases "str_includes chunk UNIFIED_ANALYSIS")
    case True
    then have "str_includes (accumulatedText q) UNIFIED_ANALYSIS"
      using q(1) by (simp add: includes_append)
    from unified_step_marker[OF True this] obtain p' where
      "unified_step chunk q = (None, p')" "accumulatedText p' = accumulatedText q"
      "scientificProcess p' = scientificProcess q" "error p' = error q" "isLoading p' = isLoading q"
      by blast
    then show ?thesis using oc q True by (intro exI[of _ p']) simp
  next
    case False
    then have "unified_step chunk q = (None, q)" by (simp add: unified_step_def)
    then show ?thesis using oc q False by (intro exI[of _ q]) simp
  qed
qed

lemma read_loop_spec:
  "\<exists>p'. read_loop chunks fin p = ((case fin of Done \<Rightarrow> None | Rejected e \<Rightarrow> Some e), p') \<and>
     scientificProcess p' = scientificProcess p @ concat chunks \<and>
     error p' = error p \<and> isLoading p' = isLoading p \<and>
     ((\<forall>c\<in>set chunks. \<not> str_includes c UNIFIED_ANALYSIS) \<longrightarrow> results p = None
        \<longrightarrow> results p' = None)"
proof (induction chunks arbitrary: p)
  case Nil
  show ?case by (cases fin) simp_all
next
  case (Cons chunk rest)
  from on_chunk_total[of chunk p] obtain p1 where
    a0: "on_chunk chunk p = (None, p1) \<and>
     scientificProcess p1 = scientificProcess p @ chunk \<and>
     accumulatedText p1 = accumulatedText p @ chunk \<and>
     error p1 = error p \<and> isLoading p1 = isLoading p \<and>
     (\<not> str_includes chunk UNIFIED_ANALYSIS \<longrightarrow> results p = None \<longrightarrow> results p1 = None)" ..
  then have a: "on_chunk chunk p = (None, p1)" "scientificProcess p1 = scientificProcess p @ chunk"
    "error p1 = error p" "isLoading p1 = isLoading p"
    "\<not> str_includes chunk UNIFIED_ANALYSIS \<longrightarrow> results p = None \<longrightarrow> results p1 = None"
    by simp_all
  from Cons.IH[of p1] obtain p' where
    b0: "read_loop rest fin p1 = ((case fin of Done \<Rightarrow> None | Rejected e \<Rightarrow> Some e), p') \<and>
     scientificProcess p' = scientificProcess p1 @ concat rest \<and>
     error p' = error p1 \<and> isLoading p' = isLoading p1 \<and>
     ((\<forall>c\<in>set rest. \<not> str_includes c UNIFIED_ANALYSIS) \<longrightarrow> results p1 = None
        \<longrightarrow> results p' = None)" ..
  then have b: "read_loop rest fin p1 = ((case fin of Done \<Rightarrow> None | Rejected e \<Rightarrow> Some e), p')"
    "scientificProcess p' = scientificProcess p1 @ concat rest"
    "error p' = error p1" "isLoading p' = isLoading p1"
    "(\<forall>c\<in>set rest. \<not> str_includes c UNIFIED_ANALYSIS) \<longrightarrow> results p1 = None
        \<longrightarrow> results p' = None"
    by simp_all
  have "read_loop (chunk # rest) fin p = ((case fin of Done \<Rightarrow> None | Rejected e \<Rightarrow> Some e), p')"
    using a(1) b(1) by simp
  then show ?case using a b by (intro exI[of _ p']) simp
qed

text \<open>
  C6, amended. A fragment that contains \<open>Summary for\<close> makes the page push the summary it was
  accumulating, trimmed, onto the list of summaries when that summary is not empty, and start the
  next one with the text between the first occurrence of the marker in the fragment and its next
  occurrence: all the text behind the marker when the marker occurs once. A fragment that
  contains \<open>Unified Analysis:\<close> makes the page push the summary in progress in the same way
  and publish the result object, whose unified analysis is the trimmed text between the first
  occurrence of the marker in the whole accumulated text and its next occurrence: everything
  behind the marker when it occurs once.
\<close>

theorem marker_parsing:
  "(str_includes chunk SUMMARY_FOR \<longrightarrow>
      (\<exists>rest. after_first chunk SUMMARY_FOR = Some rest \<and>
         currentSummary (summary_step chunk p) = before_first rest SUMMARY_FOR \<and>
         (\<not> str_includes rest SUMMARY_FOR \<longrightarrow> currentSummary (summary_step chunk p) = rest) \<and>
         summaries_array (summary_step chunk p)
           = summaries_array p @ (if currentSummary p = [] then [] else [trim (currentSummary p)])))
   \<and>
   (str_includes chunk UNIFIED_ANALYSIS \<longrightarrow>
      (\<exists>rest q p'.
         q = summary_step chunk (p\<lparr>accumulatedText := accumulatedText p @ chunk,
                                   scientificProcess := scientificProcess p @ chunk\<rparr>) \<and>
         after_first (accumulatedText p @ chunk) UNIFIED_ANALYSIS = Some rest \<and>
         on_chunk chunk p = (None, p') \<and>
         summaries_array p'
           = summaries_array q @ (if currentSummary q = [] then [] else [trim (currentSummary q)]) \<and>
         results p' = Some \<lparr>summaries = summaries_array p',
                             unifiedAnalysis = trim (before_first rest UNIFIED_ANALYSIS)\<rparr> \<and>
         (\<not> str_includes rest UNIFIED_ANALYSIS \<longrightarrow>
            results p' = Some \<lparr>summaries = summaries_array p', unifiedAnalysis = trim rest\<rparr>)))"
proof (intro conjI impI)
  assume s: "str_includes chunk SUMMARY_FOR"
  from summary_step_marker[OF s, of p] obtain rest where
    r: "after_first chunk SUMMARY_FOR = Some rest \<and>
    currentSummary (summary_step chunk p) = before_first rest SUMMARY_FOR \<and>
    summaries_array (summary_step chunk p)
      = summaries_array p @ (if currentSummary p = [] then [] else [trim (currentSummary p)])" ..
  then show "\<exists>rest. after_first chunk SUMMARY_FOR = Some rest \<and>
         currentSummary (summary_step chunk p) = before_first rest SUMMARY_FOR \<and>
         (\<not> str_includes rest SUMMARY_FOR \<longrightarrow> currentSummary (summary_step chunk p) = rest) \<and>
         summaries_array (summary_step chunk p)
           = summaries_array p @ (if currentSummary p = [] then [] else [trim (currentSummary p)])"
    by (intro exI[of _ rest]) (simp add: before_first_whole)
next
  assume u: "str_includes chunk UNIFIED_ANALYSIS"
  define q where "q = summary_step chunk (p\<lparr>accumulatedText := accumulatedText p @ chunk,
                                   scientificProcess := scientificProcess p @ chunk\<rparr>)"
  have acc: "accumulatedText q = accumulatedText p @ chunk"
    by (simp add: q_def summary_step_fields)
  have oc: "on_chunk chunk p = unified_step chunk q"
    by (simp add: on_chunk_def q_def)
  have "str_includes (accumulatedText q) UNIFIED_ANALYSIS"
    using u acc by (simp add: includes_append)
  from unified_step_marker[OF u this] obtain rest p' where
    "after_first (accumulatedText q) UNIFIED_ANALYSIS = Some rest"
    "unified_step chunk q = (None, p')"
    "summaries_array p'
      = summaries_array q @ (if currentSummary q = [] then [] else [trim (currentSummary q)])"
    "results p' = Some \<lparr>summaries = summaries_array p',
                        unifiedAnalysis = trim (before_first rest UNIFIED_ANALYSIS)\<rparr>"
    by blast
  then show "\<exists>rest q p'.
         q = summary_step chunk (p\<lparr>accumulatedText := accumulatedText p @ chunk,
                                   scientificProcess := scientificProcess p @ chunk\<rparr>) \<and>
         after_first (accumulatedText p @ chunk) UNIFIED_ANALYSIS = Some rest \<and>
         on_chunk chunk p = (None, p') \<and>
         summaries_array p'
           = summaries_array q @ (if currentSummary q = [] then [] else [trim (currentSummary q)]) \<and>
         results p' = Some \<lparr>summaries = summaries_array p',
                             unifiedAnalysis = trim (before_first rest UNIFIED_ANALYSIS)\<rparr> \<and>
         (\<not> str_includes rest UNIFIED_ANALYSIS \<longrightarrow>
            results p' = Some \<lparr>summaries = summaries_array p', unifiedAnalysis = trim rest\<rparr>)"
    using oc acc q_def
    by (intro exI[of _ rest] exI[of _ q] exI[of _ p']) (simp add: before_first_whole)
qed

theorem marker_parsing_witness:
  "str_includes both_markers_chunk SUMMARY_FOR \<and>
   str_includes both_markers_chunk UNIFIED_ANALYSIS \<and>
   currentSummary (summary_step both_markers_chunk mid_stream_page)
     = '' a.pdf: short. Unified Analysis: theme'' \<and>
   summaries_array (summary_step both_markers_chunk mid_stream_page) = [''b.pdf: earlier''] \<and>
   (\<exists>p'. on_chunk both_markers_chunk mid_stream_page = (None, p') \<and>
      results p' = Some \<lparr>summaries = summaries_array p', unifiedAnalysis = ''theme''\<rparr>)"
proof -
  have h1: "str_includes both_markers_chunk SUMMARY_FOR" by code_simp
  have h2: "str_includes both_markers_chunk UNIFIED_ANALYSIS" by code_simp
  have e1: "after_first both_markers_chunk SUMMARY_FOR
      = Some '' a.pdf: short. Unified Analysis: theme''" by code_simp
  have e2: "\<not> str_includes '' a.pdf: short. Unified Analysis: theme'' SUMMARY_FOR" by code_simp
  have e3: "after_first (accumulatedText mid_stream_page @ both_markers_chunk) UNIFIED_ANALYSIS
      = Some '' theme''" by code_simp
  have e4: "\<not> str_includes '' theme'' UNIFIED_ANALYSIS" by code_simp
  have e5: "trim '' theme'' = ''theme''" by code_simp
  have e6: "summaries_array mid_stream_page
      @ (if currentSummary mid_stream_page = [] then [] else [trim (currentSummary mid_stream_page)])
      = [''b.pdf: earlier'']" by code_simp
  note t = marker_parsing[of both_markers_chunk mid_stream_page]
  from t h1 e1 e2 e6 have a:
    "currentSummary (summary_step both_markers_chunk mid_stream_page)
       = '' a.pdf: short. Unified Analysis: theme''"
    "summaries_array (summary_step both_markers_chunk mid_stream_page) = [''b.pdf: earlier'']"
    by auto
  from t h2 e3 e4 e5 have b: "\<exists>p'. on_chunk both_markers_chunk mid_stream_page = (None, p') \<and>
      results p' = Some \<lparr>summaries = summaries_array p', unifiedAnalysis = ''theme''\<rparr>"
    by auto
  show ?thesis using h1 h2 a b by blast
qed

text \<open>
  C6 as stated fails when the marker occurs twice: for an answer that repeats the heading, the
  published unified analysis is empty, while the text behind the marker is not.
\<close>

theorem marker_parsing_counterexample:
  "str_includes echoed_heading_chunk UNIFIED_ANALYSIS \<and>
   map_option unifiedAnalysis (results (snd (on_chunk echoed_heading_chunk blank_page))) = Some [] \<and>
   map_option trim
      (after_first (accumulatedText (snd (on_chunk echoed_heading_chunk blank_page))) UNIFIED_ANALYSIS)
     = Some ''Unified Analysis:\<newline>The papers share a theme.''"
  by code_simp

lemma read_loop_result:
  "fst (read_loop chunks fin p) = (case fin of Done \<Rightarrow> None | Rejected e \<Rightarrow> Some e)"
  "scientificProcess (snd (read_loop chunks fin p)) = scientificProcess p @ concat chunks"
  "error (snd (read_loop chunks fin p)) = error p"
  "(\<forall>c\<in>set chunks. \<not> str_includes c UNIFIED_ANALYSIS) \<Longrightarrow> results p = None
     \<Longrightarrow> results (snd (read_loop chunks fin p)) = None"
  using read_loop_spec[of chunks fin p] by auto

lemma generateAnalysis_ok:
  assumes "200 \<le> st" "st \<le> 299"
  shows "generateAnalysis n (Responded st statusText chunks fin) pg =
    (case fin of
       Done \<Rightarrow>
         (snd (read_loop chunks fin
            (pg\<lparr>isLoading := True, error := None, results := None,
                 scientificProcess := ''Initiating analysis of '' @ toString n @ '' files...'',
                 accumulatedText := [], currentSummary := [], summaries_array := []\<rparr>)))
          \<lparr>scientificProcess := ''Initiating analysis of '' @ toString n @ '' files...''
               @ concat chunks @ ''\<newline>Analysis completed successfully.'',
           isLoading := False\<rparr>
     | Rejected e \<Rightarrow>
         (snd (read_loop chunks fin
            (pg\<lparr>isLoading := True, error := None, results := None,
                 scientificProcess := ''Initiating analysis of '' @ toString n @ '' files...'',
                 accumulatedText := [], currentSummary := [], summaries_array := []\<rparr>)))
          \<lparr>error := Some (''An error occurred: '' @ message e),
           scientificProcess := ''Initiating analysis of '' @ toString n @ '' files...''
               @ concat chunks @ ''\<newline>Error occurred: '' @ message e,
           isLoading := False\<rparr>)"
proof -
  define p1 where "p1 = pg\<lparr>isLoading := True, error := None, results := None,
                 scientificProcess := ''Initiating analysis of '' @ toString n @ '' files...'',
                 accumulatedText := [], currentSummary := [], summaries_array := []\<rparr>"
  define p' where "p' = snd (read_loop chunks fin p1)"
  have L: "read_loop chunks fin p1 = ((case fin of Done \<Rightarrow> None | Rejected e \<Rightarrow> Some e), p')"
    using read_loop_result(1)[of chunks fin p1] unfolding p'_def by (metis prod.collapse)
  have sp: "scientificProcess p' = ''Initiating analysis of '' @ toString n @ '' files...'' @ concat chunks"
    unfolding p'_def read_loop_result(2) by (simp add: p1_def)
  have "generateAnalysis n (Responded st statusText chunks fin) pg =
      (case fin of
          Done \<Rightarrow> p'\<lparr>scientificProcess := scientificProcess p'
                        @ ''\<newline>Analysis completed successfully.'', isLoading := False\<rparr>
        | Rejected e \<Rightarrow>
            p'\<lparr>error := Some (''An error occurred: '' @ message e),
               scientificProcess := scientificProcess p' @ ''\<newline>Error occurred: '' @ message e,
               isLoading := False\<rparr>)"
    using assms L unfolding generateAnalysis_def Let_def p1_def[symmetric]
    by (cases fin) simp_all
  then show ?thesis unfolding sp unfolding p'_def p1_def by (cases fin) simp_all
qed

text \<open>
  C8, amended. An \<open>Error: <message>\<close> fragment arrives in the body of a response with an OK
  status whose stream then ends normally. The page shows it inline in the progress log, like any
  other fragment, and does not show the alert: \<open>error\<close> stays null. The alert is shown, and the
  message is appended to the log, when reading the body rejects.
\<close>

theorem error_fragment_display:
  assumes "200 \<le> st" "st \<le> 299" "error_fragment e \<in> set chunks"
  shows "(\<exists>pre post. scientificProcess (generateAnalysis n (Responded st statusText chunks Done) pg)
            = pre @ error_fragment e @ post) \<and>
    error (generateAnalysis n (Responded st statusText chunks Done) pg) = None \<and>
    alert (render (generateAnalysis n (Responded st statusText chunks Done) pg)) = None \<and>
    alert (render (generateAnalysis n (Responded st statusText chunks (Rejected e')) pg))
      = Some (''An error occurred: '' @ message e') \<and>
    (\<exists>pre. scientificProcess (generateAnalysis n (Responded st statusText chunks (Rejected e')) pg)
            = pre @ ''\<newline>Error occurred: '' @ message e')"
proof -
  note d = generateAnalysis_ok[OF assms(1,2), where fin=Done and chunks=chunks and n=n
      and statusText=statusText and pg=pg]
  note r = generateAnalysis_ok[OF assms(1,2), where fin="Rejected e'" and chunks=chunks and n=n
      and statusText=statusText and pg=pg]
  from assms(3) obtain xs ys where "chunks = xs @ error_fragment e # ys"
    by (auto simp: in_set_conv_decomp)
  then have c: "concat chunks = concat xs @ error_fragment e @ concat ys" by simp
  have "scientificProcess (generateAnalysis n (Responded st statusText chunks Done) pg)
      = (''Initiating analysis of '' @ toString n @ '' files...'' @ concat xs) @ error_fragment e
        @ (concat ys @ ''\<newline>Analysis completed successfully.'')"
    unfolding d c by simp
  then have 1: "\<exists>pre post. scientificProcess (generateAnalysis n (Responded st statusText chunks Done) pg)
            = pre @ error_fragment e @ post" by blast
  have 2: "error (generateAnalysis n (Responded st statusText chunks Done) pg) = None"
    unfolding d by (simp add: read_loop_result)
  then have 3: "alert (render (generateAnalysis n (Responded st statusText chunks Done) pg)) = None"
    by (simp add: render_def)
  have 4: "alert (render (generateAnalysis n (Responded st statusText chunks (Rejected e')) pg))
      = Some (''An error occurred: '' @ message e')"
    unfolding r by (simp add: render_def)
  have "scientificProcess (generateAnalysis n (Responded st statusText chunks (Rejected e')) pg)
      = (''Initiating analysis of '' @ toString n @ '' files...'' @ concat chunks)
          @ ''\<newline>Error occurred: '' @ message e'"
    unfolding r by simp
  then have 5: "\<exists>pre. scientificProcess (generateAnalysis n (Responded st statusText chunks (Rejected e')) pg)
            = pre @ ''\<newline>Error occurred: '' @ message e'"
    by blast
  show ?thesis using 1 2 3 4 5 by blast
qed

theorem error_fragment_display_witness:
  "(200::nat) \<le> 200 \<and> (200::nat) \<le> 299 \<and>
   error_fragment (Error ''socket hang up'') \<in> set failed_stream \<and>
   error (generateAnalysis 1 (Responded 200 ''OK'' failed_stream Done) blank_page) = None \<and>
   alert (render (generateAnalysis 1 (Responded 200 ''OK'' failed_stream Done) blank_page)) = None \<and>
   alert (render (generateAnalysis 1 (Responded 200 ''OK'' failed_stream
                    (Rejected (Error ''network error''))) blank_page))
     = Some ''An error occurred: network error''"
proof -
  have h: "error_fragment (Error ''socket hang up'') \<in> set failed_stream" by code_simp
  have a: "(200::nat) \<le> 200" "(200::nat) \<le> 299" by simp_all
  from error_fragment_display[OF a h, of 1 "''OK''" blank_page "Error ''network error''"]
  show ?thesis using h by simp
qed

text \<open>
  C8 as stated fails: the route's synthesis call fails, its stream ends with the \<open>Error:\<close>
  fragment, and the page that reads this stream shows no alert.
\<close>

theorem error_fragment_display_counterexample:
  "faults (new_events empty_world (snd (POST no_synthesis_env one_file_request empty_world)))
     = [Error ''socket hang up''] \<and>
   last failed_stream = ''Error: socket hang up\<newline>'' \<and>
   alert (render (generateAnalysis 1 (Responded 200 ''OK'' failed_stream Done) blank_page)) = None"
  by code_simp

text \<open>
  C10, amended. When no chunk of the body contains \<open>Unified Analysis:\<close>, however the stream ends,
  \<open>results\<close> is null when \<^verbatim>\<open>generateAnalysis\<close> is done, whatever it was before, and the results
  card is not shown: the summaries accumulated so far are not displayed.
\<close>

theorem no_result_without_unified_marker:
  assumes "\<forall>c\<in>set chunks. \<not> mentions UNIFIED_ANALYSIS c"
  shows "results (generateAnalysis n (Responded st statusText chunks fin) pg) = None \<and>
    results_card (render (generateAnalysis n (Responded st statusText chunks fin) pg)) = None"
proof -
  have "results (generateAnalysis n (Responded st statusText chunks fin) pg) = None"
  proof (cases "200 \<le> st \<and> st \<le> 299")
    case False
    then show ?thesis by (simp add: generateAnalysis_def Let_def)
  next
    case True
    then have ok: "200 \<le> st" "st \<le> 299" by simp_all
    from assms have no: "\<forall>c\<in>set chunks. \<not> str_includes c UNIFIED_ANALYSIS"
      by (simp add: mentions_def)
    show ?thesis unfolding generateAnalysis_ok[OF ok]
      by (cases fin) (simp_all add: read_loop_result(4)[OF no])
  qed
  then show ?thesis by (simp add: render_def)
qed

theorem no_result_without_unified_marker_witness:
  "filter (mentions UNIFIED_ANALYSIS) failed_stream = [] \<and>
   filter is_summary failed_stream = [''Summary for a.pdf:\<newline>sum(xyz)\<newline>\<newline>''] \<and>
   currentSummary (generateAnalysis 1 (Responded 200 ''OK'' failed_stream Done) blank_page) \<noteq> [] \<and>
   results (generateAnalysis 1 (Responded 200 ''OK'' failed_stream Done) blank_page) = None \<and>
   results_card (render (generateAnalysis 1 (Responded 200 ''OK'' failed_stream Done) blank_page))
     = None"
proof -
  have h: "\<forall>c\<in>set failed_stream. \<not> mentions UNIFIED_ANALYSIS c" by code_simp
  have s: "filter is_summary failed_stream = [''Summary for a.pdf:\<newline>sum(xyz)\<newline>\<newline>'']"
    by code_simp
  have c: "currentSummary (generateAnalysis 1 (Responded 200 ''OK'' failed_stream Done) blank_page)
      \<noteq> []" by code_simp
  have e: "filter (mentions UNIFIED_ANALYSIS) failed_stream = []" by code_simp
  from no_result_without_unified_marker[OF h, of 1 200 "''OK''" Done blank_page]
  show ?thesis using e s c by simp
qed

text \<open>
  C10 as stated takes every stream that ends with an \<open>Error:\<close> fragment for a stream without
  the marker. For a file whose name contains \<open>Unified Analysis:\<close> the route's fragments
  contain the marker although none of them is the unified analysis: the stream ends with the
  \<open>Error:\<close> fragment, and the page has published a result and shows the results card.
\<close>

theorem no_result_without_unified_marker_counterexample:
  "last misleading_stream = ''Error: socket hang up\<newline>'' \<and>
   filter is_unified misleading_stream = [] \<and>
   map_option summaries
     (results (generateAnalysis 1 (Responded 200 ''OK'' misleading_stream Done) blank_page))
     = Some [''Unified Analysis: draft.pdf:\<newline>sum(xyz)''] \<and>
   map_option summaries
     (results_card
        (render (generateAnalysis 1 (Responded 200 ''OK'' misleading_stream Done) blank_page)))
     = Some [''Unified Analysis: draft.pdf:\<newline>sum(xyz)'']"
  by code_simp

end
